theory Spec2Isabelle
  imports Main
begin

section \<open>Python values as the console observes them\<close>

text \<open>
  The model follows \<^verbatim>\<open>src/deepagents/cli.py\<close>. A Python \<^verbatim>\<open>str\<close> is a
  \<^typ>\<open>string\<close>, one \<^typ>\<open>char\<close> per character (code points below 256). A value
  that the code only ever passes to \<^verbatim>\<open>str()\<close> is either a \<^verbatim>\<open>str\<close> itself
  or any other value, given by the text \<^verbatim>\<open>str()\<close> returns for it.
\<close>

datatype pyvalue = PyStr string | PyOther string

fun py_str :: "pyvalue \<Rightarrow> string" where
  "py_str (PyStr s) = s"
| "py_str (PyOther r) = r"

text \<open>\<^verbatim>\<open>sep.join(parts)\<close>\<close>

fun join :: "string \<Rightarrow> string list \<Rightarrow> string" where
  "join sep [] = []"
| "join sep [p] = p"
| "join sep (p # q # ps) = p @ sep @ join sep (q # ps)"

section \<open>truncate_value and format_tool_message_content\<close>

definition MAX_ARG_LENGTH :: nat where
  "MAX_ARG_LENGTH = 150"

text \<open>
  \<^verbatim>\<open>def truncate_value(value, max_length=MAX_ARG_LENGTH)\<close>: the limit is a
  parameter; \<open>truncate_value_default\<close> is the call that leaves it out.
\<close>

definition truncate_value :: "string \<Rightarrow> nat \<Rightarrow> string" where
  "truncate_value v max_length =
     (if length v > max_length then take max_length v @ ''...'' else v)"

definition truncate_value_default :: "string \<Rightarrow> string" where
  "truncate_value_default v = truncate_value v MAX_ARG_LENGTH"

text \<open>
  The content of a \<^verbatim>\<open>ToolMessage\<close>: \<^verbatim>\<open>None\<close>, a list, or anything else
  (a \<^verbatim>\<open>str\<close> in particular). A list item that is not a \<^verbatim>\<open>str\<close> is given
  by what \<^verbatim>\<open>json.dumps\<close> returns for it (\<open>None\<close> when it raises) and by its
  \<^verbatim>\<open>str()\<close>.
\<close>

datatype content_item = ItemStr string | ItemOther "string option" string

datatype message_content =
    ContentNone
  | ContentList "content_item list"
  | ContentOther pyvalue

fun format_item :: "content_item \<Rightarrow> string" where
  "format_item (ItemStr s) = s"
| "format_item (ItemOther (Some dumped) _) = dumped"
| "format_item (ItemOther None r) = r"

fun format_tool_message_content :: "message_content \<Rightarrow> string" where
  "format_tool_message_content ContentNone = []"
| "format_tool_message_content (ContentList items) =
     join [CHR 0x0A] (map format_item items)"
| "format_tool_message_content (ContentOther v) = py_str v"

section \<open>TokenTracker\<close>

record token_tracker =
  session_input :: int
  session_output :: int
  last_input :: int
  last_output :: int

definition new_tracker :: token_tracker where
  "new_tracker = \<lparr>session_input = 0, session_output = 0, last_input = 0, last_output = 0\<rparr>"

definition add :: "token_tracker \<Rightarrow> int \<Rightarrow> int \<Rightarrow> token_tracker" where
  "add t input_tokens output_tokens =
     t\<lparr>session_input := session_input t + input_tokens,
       session_output := session_output t + output_tokens,
       last_input := input_tokens,
       last_output := output_tokens\<rparr>"

section \<open>File mentions\<close>

text \<open>
  \<^verbatim>\<open>re.findall(r'@((?:[^\s@]|(?<=\\)\s)+)', text)\<close>. \<^verbatim>\<open>\s\<close> on a
  \<^verbatim>\<open>str\<close> pattern is Unicode white space; below code point 256 these are
  9 to 13, 28 to 32, 133 and 160.
\<close>

definition is_space :: "char \<Rightarrow> bool" where
  "is_space c = ((of_char c :: nat) \<in> {9, 10, 11, 12, 13, 28, 29, 30, 31, 32, 133, 160})"

text \<open>
  One character of the group after \<^verbatim>\<open>@\<close>: either \<^verbatim>\<open>[^\s@]\<close>, or white space
  whose preceding character in the text is a backslash (the look-behind).
\<close>

definition mention_char :: "char \<Rightarrow> char \<Rightarrow> bool" where
  "mention_char prev c =
     ((\<not> is_space c \<and> c \<noteq> CHR ''@'') \<or> (prev = CHR 0x5C \<and> is_space c))"

text \<open>
  The scan of \<^verbatim>\<open>findall\<close>, left to right, matches not overlapping. \<open>cur\<close> is
  \<open>None\<close> outside a match and \<open>Some t\<close> after an \<^verbatim>\<open>@\<close> with the group
  characters \<open>t\<close> matched so far; the group is greedy and needs one character at least.
  A character that ends a match is looked at again as a possible start.
\<close>

fun close_match :: "string option \<Rightarrow> string list" where
  "close_match None = []"
| "close_match (Some t) = (if t = [] then [] else [t])"

fun findall_mentions :: "char \<Rightarrow> string option \<Rightarrow> string \<Rightarrow> string list" where
  "findall_mentions prev cur [] = close_match cur"
| "findall_mentions prev None (c # cs) =
     findall_mentions c (if c = CHR ''@'' then Some [] else None) cs"
| "findall_mentions prev (Some t) (c # cs) =
     (if mention_char prev c then findall_mentions c (Some (t @ [c])) cs
      else close_match (Some t) @
           findall_mentions c (if c = CHR ''@'' then Some [] else None) cs)"

definition find_mentions :: "string \<Rightarrow> string list" where
  "find_mentions text = findall_mentions (CHR 0x00) None text"

text \<open>\<^verbatim>\<open>match.replace('\\ ', ' ')\<close>\<close>

fun unescape_spaces :: "string \<Rightarrow> string" where
  "unescape_spaces (a # b # cs) =
     (if a = CHR 0x5C \<and> b = CHR '' '' then CHR '' '' # unescape_spaces cs
      else a # unescape_spaces (b # cs))"
| "unescape_spaces cs = cs"

text \<open>
  The file system, as \<^verbatim>\<open>pathlib\<close> shows it to \<^verbatim>\<open>parse_file_mentions\<close> and
  \<^verbatim>\<open>execute_task\<close>. \<^verbatim>\<open>Path.expanduser\<close> raises \<^verbatim>\<open>RuntimeError\<close> when the
  home directory of a \<^verbatim>\<open>~user\<close> prefix cannot be determined (\<open>None\<close>);
  \<^verbatim>\<open>resolve\<close>, \<^verbatim>\<open>exists\<close>/\<^verbatim>\<open>is_file\<close> and \<^verbatim>\<open>read_text\<close> may raise
  (\<open>Inl\<close> with the text of the exception).
\<close>

record fs =
  expanduser :: "string \<Rightarrow> string option"
  is_absolute :: "string \<Rightarrow> bool"
  cwd_join :: "string \<Rightarrow> string"
  resolve :: "string \<Rightarrow> string + string"
  exists_is_file :: "string \<Rightarrow> string + bool"
  path_name :: "string \<Rightarrow> string"
  read_text :: "string \<Rightarrow> string + string"

section \<open>Stream events, console output and the environment\<close>

datatype todo = Todo "string option" "string option"

datatype action_request = ActionRequest "string option"

datatype decision = Approve | Reject string

datatype stream_input = UserMessages string | ResumeCommand "decision list"

text \<open>
  A content block of an \<^verbatim>\<open>AIMessageChunk\<close>. A tool call chunk has
  \<^verbatim>\<open>block.get("name")\<close> (\<open>None\<close> when absent or \<^verbatim>\<open>None\<close>) and the value
  under \<^verbatim>\<open>"args"\<close> (\<open>None\<close> when the key is absent, so that the default
  \<^verbatim>\<open>""\<close> applies); its \<^verbatim>\<open>"id"\<close> is read and never used.
\<close>

datatype block =
    TextBlock string
  | ReasoningBlock string
  | ToolCallChunk "string option" "pyvalue option"
  | OtherBlock

text \<open>
  A message of the messages channel: a \<^verbatim>\<open>ToolMessage\<close> with its name, status and
  content; a message with \<^verbatim>\<open>content_blocks\<close> and its usage metadata
  (\<open>input_tokens\<close>, \<open>output_tokens\<close>; \<open>None\<close> when absent or empty); any other.
\<close>

datatype message =
    ToolMessage "string option" string message_content
  | AIMessageChunk "(nat \<times> nat) option" "block list"
  | OtherMessage

datatype messages_data = MsgNotPair | MsgPair message

text \<open>
  The data of the updates channel, as far as the code reads it: not a dict; or a dict
  with the action requests of a non-empty \<^verbatim>\<open>"__interrupt__"\<close> entry (if any) and the
  \<^verbatim>\<open>"todos"\<close> of its first value (if that is a non-empty dict holding the key).
\<close>

datatype updates_data = UpdNotDict | UpdDict "action_request list option" "todo list option"

datatype chunk = NotTriple | Updates updates_data | Messages messages_data | OtherMode

text \<open>
  What iterating \<^verbatim>\<open>agent.stream(...)\<close> does at each step: yield a chunk, or raise
  (\<^verbatim>\<open>KeyboardInterrupt\<close> when the user aborts while the engine waits).
\<close>

datatype stream_item = Yield chunk | RaiseKeyboardInterrupt | RaiseException string

datatype invoke_result = InvokeReturns | InvokeRaises string | InvokeKeyboardInterrupt

datatype prompt_selection = Selected nat | CtrlC

datatype icon =
    IconReadFile | IconWriteFile | IconEditFile | IconLs | IconGlob | IconGrep
  | IconShell | IconWebSearch | IconHttpRequest | IconTask | IconWriteTodos | IconDefault

datatype printed =
    Blank
  | WarnFileNotFound string
  | WarnInvalidPath string string
  | AgentMarker
  | AgentText string
  | ToolErrorText string
  | ToolCallLine icon string string
  | ResumeError string
  | RejectedNotice
  | InterruptedNotice
  | TokensLine int

text \<open>
  A print is recorded by what is handed to \<^verbatim>\<open>console.print\<close>. The console
  reads Rich markup in that text unless the call passes \<^verbatim>\<open>markup=False\<close>, which
  only the prints of the agent's marker and of its text fragments do. A print whose
  text Rich cannot read raises: \<open>resume_rejected\<close> has that exception, where the
  print stands in a handler and the end of the turn depends on it; the other prints are
  recorded as handed over.
\<close>

fun markup_on :: "printed \<Rightarrow> bool" where
  "markup_on AgentMarker = False"
| "markup_on (AgentText t) = False"
| "markup_on p = True"

text \<open>
  The turn's interaction with its surroundings, in order: what it prints, what it does
  to the spinner, the calls it makes and the chunks it receives.
\<close>

datatype event =
    Print printed
  | StatusStart
  | StatusStop
  | RenderTodoList "todo list"
  | PromptForShellApproval action_request
  | AgentStream stream_input
  | AgentInvoke stream_input
  | Received chunk

text \<open>
  The surroundings answer each call from the history so far (the call is its last
  event): the agent with a stream or with the result of \<^verbatim>\<open>invoke\<close>, the user with
  the selection made at the approval prompt. \<^verbatim>\<open>json.loads\<close> gives the items of a
  JSON object, and \<open>None\<close> where it raises or where the value has no \<^verbatim>\<open>items()\<close>.
  \<open>rich_markup\<close> gives what the console shows for a text read with markup, and
  \<open>None\<close> where Rich raises \<^verbatim>\<open>MarkupError\<close>.
\<close>

record env =
  agent_stream :: "event list \<Rightarrow> stream_item list"
  agent_invoke :: "event list \<Rightarrow> invoke_result"
  approval_key :: "event list \<Rightarrow> prompt_selection"
  json_loads :: "string \<Rightarrow> (string \<times> pyvalue) list option"
  rich_markup :: "string \<Rightarrow> string option"
  files :: fs

text \<open>What the user sees of a text handed to \<^verbatim>\<open>console.print\<close>.\<close>

definition console_shows :: "env \<Rightarrow> bool \<Rightarrow> string \<Rightarrow> string option" where
  "console_shows e markup text = (if markup then rich_markup e text else Some text)"

section \<open>parse_file_mentions\<close>

fun resolve_mentions ::
  "fs \<Rightarrow> string list \<Rightarrow> string list \<Rightarrow> event list \<Rightarrow> event list \<times> (string + string list)" where
  "resolve_mentions f [] found out = (out, Inr found)"
| "resolve_mentions f (m # ms) found out =
     (case expanduser f (unescape_spaces m) of
        None \<Rightarrow> (out, Inl ''RuntimeError'')
      | Some p \<Rightarrow>
          (let path = (if is_absolute f p then p else cwd_join f p) in
           case resolve f path of
             Inl e \<Rightarrow> resolve_mentions f ms found (out @ [Print (WarnInvalidPath m e)])
           | Inr r \<Rightarrow>
               (case exists_is_file f r of
                  Inl e \<Rightarrow> resolve_mentions f ms found (out @ [Print (WarnInvalidPath m e)])
                | Inr True \<Rightarrow> resolve_mentions f ms (found @ [r]) out
                | Inr False \<Rightarrow> resolve_mentions f ms found (out @ [Print (WarnFileNotFound m)]))))"

text \<open>
  The result is the warnings printed and either the exception that left the function or
  the pair it returns.
\<close>

definition parse_file_mentions :: "fs \<Rightarrow> string \<Rightarrow> event list \<times> (string + string \<times> string list)" where
  "parse_file_mentions f text =
     (case resolve_mentions f (find_mentions text) [] [] of
        (out, Inl e) \<Rightarrow> (out, Inl e)
      | (out, Inr found) \<Rightarrow> (out, Inr (text, found)))"

definition nl :: string where
  "nl = [CHR 0x0A]"

definition file_section :: "fs \<Rightarrow> string \<Rightarrow> string" where
  "file_section f file_path =
     (case read_text f file_path of
        Inr content \<Rightarrow>
          nl @ ''### '' @ path_name f file_path @ nl @ ''Path: `'' @ file_path @ ''`'' @ nl
          @ ''```'' @ nl
          @ (if length content > 50000 then take 50000 content @ nl @ ''... (file truncated)''
             else content)
          @ nl @ ''```''
      | Inl e \<Rightarrow> nl @ ''### '' @ path_name f file_path @ nl @ ''[Error reading file: '' @ e @ '']'')"

definition final_input :: "fs \<Rightarrow> string \<Rightarrow> string list \<Rightarrow> string" where
  "final_input f prompt_text mentioned_files =
     (if mentioned_files \<noteq> [] then
        join nl ([prompt_text, nl @ nl @ ''## Referenced Files'' @ nl] @ map (file_section f) mentioned_files)
      else prompt_text)"

section \<open>execute_task\<close>

text \<open>The local variables of \<^verbatim>\<open>execute_task\<close> and the history of the turn.\<close>

record state =
  has_responded :: bool
  captured_input_tokens :: nat
  captured_output_tokens :: nat
  current_todos :: "todo list option"
  spinner_active :: bool
  trace :: "event list"

definition emit :: "event list \<Rightarrow> state \<Rightarrow> state" where
  "emit es st = st\<lparr>trace := trace st @ es\<rparr>"

text \<open>
  \<^verbatim>\<open>if spinner_active: status.stop(); spinner_active = False\<close>
\<close>

definition stop_spinner :: "state \<Rightarrow> state" where
  "stop_spinner st =
     (if spinner_active st then emit [StatusStop] (st\<lparr>spinner_active := False\<rparr>) else st)"

definition tool_icons :: "string \<Rightarrow> icon option" where
  "tool_icons = map_of
     [(''read_file'', IconReadFile), (''write_file'', IconWriteFile),
      (''edit_file'', IconEditFile), (''ls'', IconLs), (''glob'', IconGlob),
      (''grep'', IconGrep), (''shell'', IconShell), (''web_search'', IconWebSearch),
      (''http_request'', IconHttpRequest), (''task'', IconTask),
      (''write_todos'', IconWriteTodos)]"

definition tool_icon :: "string \<Rightarrow> icon" where
  "tool_icon tool_name = (case tool_icons tool_name of Some i \<Rightarrow> i | None \<Rightarrow> IconDefault)"

text \<open>
  The text between the parentheses of a tool call line: the items of the parsed
  arguments, each value cut by \<^verbatim>\<open>truncate_value(str(v), 50)\<close>, or
  \<^verbatim>\<open>str(tool_args)\<close> where the arguments are empty, not a \<^verbatim>\<open>str\<close>, or do not
  parse.
\<close>

definition format_arg :: "string \<times> pyvalue \<Rightarrow> string" where
  "format_arg kv = fst kv @ ''='' @ truncate_value (py_str (snd kv)) 50"

definition format_tool_args :: "(string \<Rightarrow> (string \<times> pyvalue) list option) \<Rightarrow> pyvalue option \<Rightarrow> string" where
  "format_tool_args loads tool_args =
     (case tool_args of
        None \<Rightarrow> []
      | Some (PyOther r) \<Rightarrow> r
      | Some (PyStr s) \<Rightarrow>
          (if s \<noteq> [] then
             (case loads s of
                Some parsed_args \<Rightarrow> join '', '' (map format_arg parsed_args)
              | None \<Rightarrow> s)
           else s))"

fun handle_block :: "env \<Rightarrow> block \<Rightarrow> state \<Rightarrow> state" where
  "handle_block e (TextBlock text) st =
     (if text \<noteq> [] then
        (let st1 = stop_spinner st;
             st2 = (if \<not> has_responded st1
                    then emit [Print AgentMarker] (st1\<lparr>has_responded := True\<rparr>) else st1)
         in emit [Print (AgentText text)] st2)
      else st)"
| "handle_block e (ReasoningBlock reasoning) st =
     (if reasoning \<noteq> [] then stop_spinner st else st)"
| "handle_block e (ToolCallChunk tool_name tool_args) st =
     (case tool_name of
        None \<Rightarrow> st
      | Some n \<Rightarrow>
          (if n \<noteq> [] then
             emit ((if spinner_active st then [StatusStop] else [])
                   @ (if has_responded st then [Print Blank] else [])
                   @ [Print (ToolCallLine (tool_icon n) n (format_tool_args (json_loads e) tool_args))]
                   @ (if spinner_active st then [StatusStart] else [])) st
           else st))"
| "handle_block e OtherBlock st = st"

fun handle_blocks :: "env \<Rightarrow> block list \<Rightarrow> state \<Rightarrow> state" where
  "handle_blocks e [] st = st"
| "handle_blocks e (b # bs) st = handle_blocks e bs (handle_block e b st)"

text \<open>
  \<^verbatim>\<open>if token_tracker and hasattr(message, 'usage_metadata')\<close>: \<open>tracking\<close> says
  that a tracker was passed to \<^verbatim>\<open>execute_task\<close>.
\<close>

definition capture_usage :: "bool \<Rightarrow> (nat \<times> nat) option \<Rightarrow> state \<Rightarrow> state" where
  "capture_usage tracking usage st =
     (case usage of
        None \<Rightarrow> st
      | Some (input_toks, output_toks) \<Rightarrow>
          (if tracking \<and> (input_toks \<noteq> 0 \<or> output_toks \<noteq> 0) then
             st\<lparr>captured_input_tokens := max (captured_input_tokens st) input_toks,
                captured_output_tokens := max (captured_output_tokens st) output_toks\<rparr>
           else st))"

fun handle_message :: "env \<Rightarrow> bool \<Rightarrow> message \<Rightarrow> state \<Rightarrow> state" where
  "handle_message e tracking (ToolMessage tool_name tool_status content) st =
     (if tool_name = Some ''shell'' \<and> tool_status \<noteq> ''success'' then
        (let tool_content = format_tool_message_content content in
         if tool_content \<noteq> [] then
           emit [Print Blank, Print (ToolErrorText tool_content), Print Blank] (stop_spinner st)
         else st)
      else st)"
| "handle_message e tracking OtherMessage st = st"
| "handle_message e tracking (AIMessageChunk usage content_blocks) st =
     handle_blocks e content_blocks (capture_usage tracking usage st)"

definition handle_todos :: "todo list \<Rightarrow> state \<Rightarrow> state" where
  "handle_todos new_todos st =
     (if Some new_todos \<noteq> current_todos st then
        emit [Print Blank, RenderTodoList new_todos, Print Blank]
          (stop_spinner (st\<lparr>current_todos := Some new_todos\<rparr>))
      else st)"

text \<open>
  \<^verbatim>\<open>render_todo_list\<close>: nothing for an empty list, else one panel with a line
  for each todo, marked by its status (\<^verbatim>\<open>pending\<close> when absent) and holding its
  content (empty when absent). In a history \<open>RenderTodoList\<close> is the call.
\<close>

datatype todo_mark = MarkCompleted | MarkInProgress | MarkPending

fun todo_line :: "todo \<Rightarrow> todo_mark \<times> string" where
  "todo_line (Todo content status) =
     (if status = Some ''completed'' then MarkCompleted
      else if status = Some ''in_progress'' then MarkInProgress
      else MarkPending,
      case content of Some c \<Rightarrow> c | None \<Rightarrow> [])"

definition render_todo_list :: "todo list \<Rightarrow> (todo_mark \<times> string) list option" where
  "render_todo_list todos = (if todos = [] then None else Some (map todo_line todos))"

text \<open>One chunk that does not interrupt the stream.\<close>

fun handle_chunk :: "env \<Rightarrow> bool \<Rightarrow> chunk \<Rightarrow> state \<Rightarrow> state" where
  "handle_chunk e tracking (Updates (UpdDict i (Some new_todos))) st = handle_todos new_todos st"
| "handle_chunk e tracking (Messages (MsgPair m)) st = handle_message e tracking m st"
| "handle_chunk e tracking c st = st"

text \<open>
  The end of \<^verbatim>\<open>prompt_for_shell_approval\<close>: the decision for the option selected.
\<close>

definition decision_of :: "nat \<Rightarrow> decision" where
  "decision_of selected = (if selected = 0 then Approve else Reject ''User rejected the command'')"

text \<open>
  The loop over the action requests; \<open>None\<close> when a prompt raises
  \<^verbatim>\<open>KeyboardInterrupt\<close>.
\<close>

fun collect_decisions ::
  "env \<Rightarrow> action_request list \<Rightarrow> decision list \<Rightarrow> state \<Rightarrow> decision list option \<times> state" where
  "collect_decisions e [] decisions st = (Some decisions, st)"
| "collect_decisions e (r # rs) decisions st =
     (let st1 = emit [PromptForShellApproval r] st in
      case approval_key e (trace st1) of
        CtrlC \<Rightarrow> (None, st1)
      | Selected n \<Rightarrow> collect_decisions e rs (decisions @ [decision_of n]) st1)"

fun interrupt_requests :: "chunk \<Rightarrow> action_request list option" where
  "interrupt_requests (Updates (UpdDict (Some reqs) t)) = Some reqs"
| "interrupt_requests c = None"

datatype stream_end =
    Exhausted
  | Interrupted "decision list"
  | KeyboardInterrupted
  | Raised string

text \<open>The \<^verbatim>\<open>for chunk in agent.stream(...)\<close> loop, up to its end or its break.\<close>

fun consume_stream :: "env \<Rightarrow> bool \<Rightarrow> stream_item list \<Rightarrow> state \<Rightarrow> stream_end \<times> state" where
  "consume_stream e tracking [] st = (Exhausted, st)"
| "consume_stream e tracking (RaiseKeyboardInterrupt # rest) st = (KeyboardInterrupted, st)"
| "consume_stream e tracking (RaiseException err # rest) st = (Raised err, st)"
| "consume_stream e tracking (Yield c # rest) st =
     (let st1 = emit [Received c] st in
      case interrupt_requests c of
        Some reqs \<Rightarrow>
          (case collect_decisions e reqs [] (stop_spinner st1) of
             (None, st2) \<Rightarrow> (KeyboardInterrupted, st2)
           | (Some decisions, st2) \<Rightarrow> (Interrupted decisions, st2))
      | None \<Rightarrow> consume_stream e tracking rest (handle_chunk e tracking c st1))"

datatype outcome = Completed | Rejected | InterruptedByUser | Errored string

fun is_reject :: "decision \<Rightarrow> bool" where
  "is_reject (Reject m) = True"
| "is_reject Approve = False"

text \<open>
  \<^verbatim>\<open>except KeyboardInterrupt\<close>: the spinner is stopped if it runs, the notice is
  printed, the function returns.
\<close>

definition on_keyboard_interrupt :: "state \<Rightarrow> state" where
  "on_keyboard_interrupt st =
     emit ((if spinner_active st then [StatusStop] else []) @ [Print InterruptedNotice]) st"

text \<open>
  The text of \<^verbatim>\<open>console.print(f"[red]Error resuming after rejection: {err}[/red]")\<close>
\<close>

definition resume_error_text :: "string \<Rightarrow> string" where
  "resume_error_text err = ''[red]Error resuming after rejection: '' @ err @ ''[/red]''"

text \<open>
  The branch \<^verbatim>\<open>if suppress_resumed_output\<close>: one \<^verbatim>\<open>agent.invoke\<close> with the
  decisions, its exception printed, the notice of the \<^verbatim>\<open>finally\<close>, the return.
  \<^verbatim>\<open>except Exception\<close> does not catch \<^verbatim>\<open>KeyboardInterrupt\<close>, which goes on to
  the handler of the turn after the \<^verbatim>\<open>finally\<close>. The print of the handler reads
  the text of the exception as markup: where Rich raises, that exception leaves
  \<^verbatim>\<open>execute_task\<close> after the \<^verbatim>\<open>finally\<close>.
\<close>

definition resume_rejected :: "env \<Rightarrow> decision list \<Rightarrow> state \<Rightarrow> outcome \<times> state" where
  "resume_rejected e decisions st =
     (let st1 = emit [AgentInvoke (ResumeCommand decisions)] (stop_spinner st) in
      case agent_invoke e (trace st1) of
        InvokeReturns \<Rightarrow> (Rejected, emit [Print RejectedNotice] st1)
      | InvokeRaises err \<Rightarrow>
          (case rich_markup e (resume_error_text err) of
             Some shown \<Rightarrow> (Rejected, emit [Print (ResumeError err), Print RejectedNotice] st1)
           | None \<Rightarrow> (Errored ''MarkupError'', emit [Print RejectedNotice] st1))
      | InvokeKeyboardInterrupt \<Rightarrow>
          (InterruptedByUser, on_keyboard_interrupt (emit [Print RejectedNotice] st1)))"

text \<open>
  The \<^verbatim>\<open>while True\<close> loop. It runs as long as the agent interrupts and the user
  approves, so the model counts the streams it may still open: \<open>None\<close> when the count
  runs out.
\<close>

fun stream_loop :: "nat \<Rightarrow> env \<Rightarrow> bool \<Rightarrow> stream_input \<Rightarrow> state \<Rightarrow> (outcome \<times> state) option" where
  "stream_loop 0 e tracking inp st = None"
| "stream_loop (Suc fuel) e tracking inp st =
     (let st1 = emit [AgentStream inp] st in
      case consume_stream e tracking (agent_stream e (trace st1)) st1 of
        (Exhausted, st2) \<Rightarrow> Some (Completed, st2)
      | (KeyboardInterrupted, st2) \<Rightarrow> Some (InterruptedByUser, on_keyboard_interrupt st2)
      | (Raised err, st2) \<Rightarrow> Some (Errored err, st2)
      | (Interrupted decisions, st2) \<Rightarrow>
          (if list_ex is_reject decisions then Some (resume_rejected e decisions st2)
           else stream_loop fuel e tracking (ResumeCommand decisions) st2))"

text \<open>\<^verbatim>\<open>TokenTracker.display_last\<close>\<close>

definition display_last :: "token_tracker \<Rightarrow> event list" where
  "display_last t =
     (if last_output t \<noteq> 0 \<and> last_output t \<ge> 1000 then [Print (TokensLine (last_output t))] else [])"

text \<open>The code after the loop, reached when the last stream ends with no interrupt.\<close>

definition finish :: "token_tracker option \<Rightarrow> state \<Rightarrow> token_tracker option \<times> event list" where
  "finish token_tracker st =
     (let stop = (if spinner_active st then [StatusStop] else []) in
      if has_responded st then
        (case token_tracker of
           Some t \<Rightarrow>
             (if captured_input_tokens st \<noteq> 0 \<or> captured_output_tokens st \<noteq> 0 then
                (let t' = add t (int (captured_input_tokens st)) (int (captured_output_tokens st))
                 in (Some t', trace st @ stop @ [Print Blank] @ display_last t' @ [Print Blank]))
              else (Some t, trace st @ stop @ [Print Blank, Print Blank]))
         | None \<Rightarrow> (None, trace st @ stop @ [Print Blank, Print Blank]))
      else (token_tracker, trace st @ stop))"

definition initial_state :: "event list \<Rightarrow> state" where
  "initial_state es =
     \<lparr>has_responded = False, captured_input_tokens = 0, captured_output_tokens = 0,
      current_todos = None, spinner_active = True, trace = es @ [StatusStart]\<rparr>"

text \<open>
  \<^verbatim>\<open>execute_task(user_input, agent, assistant_id, token_tracker)\<close>: the outcome of
  the turn, the tracker afterwards and the history. \<^verbatim>\<open>assistant_id\<close> only goes into
  the configuration handed to the agent.
\<close>

definition execute_task ::
  "nat \<Rightarrow> env \<Rightarrow> string \<Rightarrow> token_tracker option \<Rightarrow> (outcome \<times> token_tracker option \<times> event list) option" where
  "execute_task fuel e user_input token_tracker =
     (case parse_file_mentions (files e) user_input of
        (warnings, Inl err) \<Rightarrow> Some (Errored err, token_tracker, Print Blank # warnings)
      | (warnings, Inr (prompt_text, mentioned_files)) \<Rightarrow>
          (case stream_loop fuel e (token_tracker \<noteq> None)
                  (UserMessages (final_input (files e) prompt_text mentioned_files))
                  (initial_state (Print Blank # warnings)) of
             None \<Rightarrow> None
           | Some (Completed, st) \<Rightarrow>
               (case finish token_tracker st of (t, es) \<Rightarrow> Some (Completed, t, es))
           | Some (out, st) \<Rightarrow> Some (out, token_tracker, trace st)))"

section \<open>Views of a history\<close>

text \<open>The chunks received, the todo lists redrawn and the text fragments printed.\<close>

fun received_chunks :: "event list \<Rightarrow> chunk list" where
  "received_chunks [] = []"
| "received_chunks (Received c # es) = c # received_chunks es"
| "received_chunks (ev # es) = received_chunks es"

fun rendered_todos :: "event list \<Rightarrow> todo list list" where
  "rendered_todos [] = []"
| "rendered_todos (RenderTodoList ts # es) = ts # rendered_todos es"
| "rendered_todos (ev # es) = rendered_todos es"

fun agent_texts :: "event list \<Rightarrow> string list" where
  "agent_texts [] = []"
| "agent_texts (Print (AgentText t) # es) = t # agent_texts es"
| "agent_texts (ev # es) = agent_texts es"

fun tool_call_lines :: "event list \<Rightarrow> (string \<times> string) list" where
  "tool_call_lines [] = []"
| "tool_call_lines (Print (ToolCallLine i n a) # es) = (n, a) # tool_call_lines es"
| "tool_call_lines (ev # es) = tool_call_lines es"

fun tool_errors :: "event list \<Rightarrow> string list" where
  "tool_errors [] = []"
| "tool_errors (Print (ToolErrorText t) # es) = t # tool_errors es"
| "tool_errors (ev # es) = tool_errors es"

text \<open>
  The tool results that are to be shown: the formatted content, where it is not empty,
  of a result of \<^verbatim>\<open>shell\<close> whose status is not \<^verbatim>\<open>success\<close>.
\<close>

fun chunk_tool_errors :: "chunk \<Rightarrow> string list" where
  "chunk_tool_errors (Messages (MsgPair (ToolMessage n s c))) =
     (if n = Some ''shell'' \<and> s \<noteq> ''success'' \<and> format_tool_message_content c \<noteq> []
      then [format_tool_message_content c] else [])"
| "chunk_tool_errors c = []"

text \<open>
  The todo snapshots the engine compares, in arrival order: those of the received
  updates that carry no interrupt.
\<close>

fun chunk_todos :: "chunk \<Rightarrow> todo list list" where
  "chunk_todos (Updates (UpdDict None (Some ts))) = [ts]"
| "chunk_todos c = []"

definition received_todos :: "event list \<Rightarrow> todo list list" where
  "received_todos es = concat (map chunk_todos (received_chunks es))"

text \<open>
  The usage reports with a nonzero count, in arrival order: those of the received
  messages that have content blocks.
\<close>

fun chunk_usage :: "chunk \<Rightarrow> (nat \<times> nat) list" where
  "chunk_usage (Messages (MsgPair (AIMessageChunk (Some u) bs))) =
     (if fst u \<noteq> 0 \<or> snd u \<noteq> 0 then [u] else [])"
| "chunk_usage c = []"

definition usage_reports :: "event list \<Rightarrow> (nat \<times> nat) list" where
  "usage_reports es = concat (map chunk_usage (received_chunks es))"

section \<open>Sample surroundings\<close>

definition sample_fs :: fs where
  "sample_fs =
     \<lparr>expanduser = (\<lambda>p. if take 6 p = ''~ghost'' then None else Some p),
      is_absolute = (\<lambda>p. take 1 p = ''/''),
      cwd_join = (\<lambda>p. ''/work/'' @ p),
      resolve = Inr,
      exists_is_file = (\<lambda>p. Inr (p = ''/work/a.txt'')),
      path_name = (\<lambda>p. rev (takeWhile (\<lambda>c. c \<noteq> CHR ''/'') (rev p))),
      read_text = (\<lambda>p. Inr ''alpha'')\<rparr>"

definition ls_args :: string where
  "ls_args = ''{\"command\":\"ls\"}''"

definition read_args :: string where
  "read_args = ''{\"file_path\":\"/srv/projects/deepagents/src/deepagents/cli/main.py\"}''"

definition long_path :: string where
  "long_path = ''/srv/projects/deepagents/src/deepagents/cli/main.py''"

definition sample_loads :: "string \<Rightarrow> (string \<times> pyvalue) list option" where
  "sample_loads s =
     (if s = ls_args then Some [(''command'', PyStr ''ls'')]
      else if s = read_args then Some [(''file_path'', PyStr long_path)]
      else None)"

text \<open>
  Surroundings with a given agent and user: the agent answers a call by the payload it
  is called with, the user selects the same option at every prompt.
\<close>

definition last_input_of :: "event list \<Rightarrow> stream_input option" where
  "last_input_of h =
     (case rev h of
        AgentStream inp # r \<Rightarrow> Some inp
      | AgentInvoke inp # r \<Rightarrow> Some inp
      | r \<Rightarrow> None)"

text \<open>
  Rich on the texts of the samples: a style tag is taken out of the text, a closing tag
  with no opening tag raises, a text with no tag is shown as it is.
\<close>

definition sample_markup :: "string \<Rightarrow> string option" where
  "sample_markup s =
     (if s = ''[error] build failed'' then Some '' build failed''
      else if s = resume_error_text ''boom'' then Some ''Error resuming after rejection: boom''
      else if s = resume_error_text ''no [/tmp/x]'' then None
      else Some s)"

definition sample_env ::
  "stream_item list \<Rightarrow> stream_item list \<Rightarrow> invoke_result \<Rightarrow> nat \<Rightarrow> env" where
  "sample_env first resumed invoked selected =
     \<lparr>agent_stream = (\<lambda>h. case last_input_of h of
                              Some (UserMessages m) \<Rightarrow> first
                            | Some (ResumeCommand ds) \<Rightarrow> resumed
                            | None \<Rightarrow> []),
      agent_invoke = (\<lambda>h. invoked),
      approval_key = (\<lambda>h. Selected selected),
      json_loads = sample_loads,
      rich_markup = sample_markup,
      files = sample_fs\<rparr>"

definition ai :: "block list \<Rightarrow> stream_item" where
  "ai bs = Yield (Messages (MsgPair (AIMessageChunk None bs)))"

definition ai_usage :: "nat \<Rightarrow> nat \<Rightarrow> block list \<Rightarrow> stream_item" where
  "ai_usage i out bs = Yield (Messages (MsgPair (AIMessageChunk (Some (i, out)) bs)))"

definition todos_update :: "todo list \<Rightarrow> stream_item" where
  "todos_update ts = Yield (Updates (UpdDict None (Some ts)))"

definition interrupt :: "action_request list \<Rightarrow> stream_item" where
  "interrupt reqs = Yield (Updates (UpdDict (Some reqs) None))"

definition tool_result :: "string \<Rightarrow> string \<Rightarrow> string \<Rightarrow> stream_item" where
  "tool_result tool_name tool_status content =
     Yield (Messages (MsgPair (ToolMessage (Some tool_name) tool_status (ContentOther (PyStr content)))))"

text \<open>
  The events that only record a call, a notice or a stop of the spinner: the loop emits
  them between chunks.
\<close>

fun notice :: "event \<Rightarrow> bool" where
  "notice (PromptForShellApproval r) = True"
| "notice (AgentStream inp) = True"
| "notice (AgentInvoke inp) = True"
| "notice StatusStop = True"
| "notice (Print RejectedNotice) = True"
| "notice (Print InterruptedNotice) = True"
| "notice (Print (ResumeError err)) = True"
| "notice ev = False"

definition sample_todos :: "todo list" where
  "sample_todos = [Todo (Some ''write tests'') (Some ''pending'')]"




definition unreadable_env :: env where
  "unreadable_env =
     sample_env [ai [TextBlock ''hi''], interrupt [ActionRequest (Some ''rm -rf build'')]]
       [ai [TextBlock ''late'']] (InvokeRaises ''no [/tmp/x]'') 1"

section \<open>Invariants of a turn\<close>

text \<open>The history from the first redraw of the todo list on.\<close>

fun since_redraw :: "event list \<Rightarrow> event list" where
  "since_redraw [] = []"
| "since_redraw (RenderTodoList ts # es) = RenderTodoList ts # es"
| "since_redraw (ev # es) = since_redraw es"

text \<open>
  \<open>current_todos\<close> is the last snapshot compared, and the lists redrawn are the
  snapshots compared with every immediate repetition left out.
\<close>

definition todos_consistent :: "state \<Rightarrow> bool" where
  "todos_consistent st =
     (rendered_todos (trace st) = remdups_adj (received_todos (trace st))
      \<and> current_todos st =
          (if received_todos (trace st) = [] then None
           else Some (last (received_todos (trace st)))))"

text \<open>The captured counts are the largest reported so far.\<close>

definition usage_captured :: "state \<Rightarrow> bool" where
  "usage_captured st =
     (captured_input_tokens st = Max (set (0 # map fst (usage_reports (trace st))))
      \<and> captured_output_tokens st = Max (set (0 # map snd (usage_reports (trace st)))))"

text \<open>\<open>has_responded\<close> says that a text fragment has been printed.\<close>

definition text_shown :: "state \<Rightarrow> bool" where
  "text_shown st = (has_responded st = (agent_texts (trace st) \<noteq> []))"

text \<open>The tool errors printed are those of the results received that are to be shown.\<close>

definition errors_shown :: "state \<Rightarrow> bool" where
  "errors_shown st =
     (tool_errors (trace st) = concat (map chunk_tool_errors (received_chunks (trace st))))"

text \<open>
  The spinner is off once a todo list has been redrawn, and has not been started since.
\<close>

definition spinner_quiet :: "state \<Rightarrow> bool" where
  "spinner_quiet st =
     ((rendered_todos (trace st) = [] \<or> \<not> spinner_active st)
      \<and> StatusStart \<notin> set (since_redraw (trace st)))"

section \<open>Basic facts\<close>

lemma emit_fields [simp]:
  "trace (emit es st) = trace st @ es"
  "has_responded (emit es st) = has_responded st"
  "spinner_active (emit es st) = spinner_active st"
  "current_todos (emit es st) = current_todos st"
  "captured_input_tokens (emit es st) = captured_input_tokens st"
  "captured_output_tokens (emit es st) = captured_output_tokens st"
  by (simp_all add: emit_def)

lemma stop_spinner_fields [simp]:
  "trace (stop_spinner st) = trace st @ (if spinner_active st then [StatusStop] else [])"
  "spinner_active (stop_spinner st) = False"
  "has_responded (stop_spinner st) = has_responded st"
  "current_todos (stop_spinner st) = current_todos st"
  "captured_input_tokens (stop_spinner st) = captured_input_tokens st"
  "captured_output_tokens (stop_spinner st) = captured_output_tokens st"
  by (simp_all add: stop_spinner_def)

lemma received_chunks_append [simp]:
  "received_chunks (xs @ ys) = received_chunks xs @ received_chunks ys"
  by (induction xs rule: received_chunks.induct) simp_all

lemma rendered_todos_append [simp]:
  "rendered_todos (xs @ ys) = rendered_todos xs @ rendered_todos ys"
  by (induction xs rule: rendered_todos.induct) simp_all

lemma agent_texts_append [simp]:
  "agent_texts (xs @ ys) = agent_texts xs @ agent_texts ys"
  by (induction xs rule: agent_texts.induct) simp_all

lemma tool_call_lines_append [simp]:
  "tool_call_lines (xs @ ys) = tool_call_lines xs @ tool_call_lines ys"
  by (induction xs rule: tool_call_lines.induct) simp_all

lemma received_todos_append [simp]:
  "received_todos (xs @ ys) = received_todos xs @ received_todos ys"
  by (simp add: received_todos_def)

lemma usage_reports_append [simp]:
  "usage_reports (xs @ ys) = usage_reports xs @ usage_reports ys"
  by (simp add: usage_reports_def)

lemma since_redraw_append:
  "since_redraw (xs @ ys) =
     (if rendered_todos xs = [] then since_redraw ys else since_redraw xs @ ys)"
  by (induction xs rule: since_redraw.induct) simp_all

lemma notice_views:
  assumes "notice ev"
  shows "received_chunks [ev] = []" and "rendered_todos [ev] = []" and "agent_texts [ev] = []"
    and "ev \<noteq> StatusStart" and "since_redraw [ev] = []"
  using assms by (induction ev rule: notice.induct) simp_all

text \<open>What the handlers leave alone.\<close>

lemma handle_block_frame:
  "received_chunks (trace (handle_block e b st)) = received_chunks (trace st)"
  "rendered_todos (trace (handle_block e b st)) = rendered_todos (trace st)"
  "current_todos (handle_block e b st) = current_todos st"
  "captured_input_tokens (handle_block e b st) = captured_input_tokens st"
  "captured_output_tokens (handle_block e b st) = captured_output_tokens st"
  by (cases b; simp add: Let_def split: option.splits)+

lemma handle_blocks_frame:
  "received_chunks (trace (handle_blocks e bs st)) = received_chunks (trace st)"
  "rendered_todos (trace (handle_blocks e bs st)) = rendered_todos (trace st)"
  "current_todos (handle_blocks e bs st) = current_todos st"
  "captured_input_tokens (handle_blocks e bs st) = captured_input_tokens st"
  "captured_output_tokens (handle_blocks e bs st) = captured_output_tokens st"
  by (induction bs arbitrary: st; simp add: handle_block_frame)+

lemma capture_usage_fields [simp]:
  "trace (capture_usage tracking u st) = trace st"
  "has_responded (capture_usage tracking u st) = has_responded st"
  "spinner_active (capture_usage tracking u st) = spinner_active st"
  "current_todos (capture_usage tracking u st) = current_todos st"
  by (simp_all add: capture_usage_def split: option.splits prod.splits)

lemma handle_message_frame:
  "received_chunks (trace (handle_message e tracking m st)) = received_chunks (trace st)"
  "rendered_todos (trace (handle_message e tracking m st)) = rendered_todos (trace st)"
  "current_todos (handle_message e tracking m st) = current_todos st"
  by (cases m; simp add: Let_def handle_blocks_frame)+

lemma handle_todos_frame:
  "received_chunks (trace (handle_todos ts st)) = received_chunks (trace st)"
  "agent_texts (trace (handle_todos ts st)) = agent_texts (trace st)"
  "has_responded (handle_todos ts st) = has_responded st"
  "captured_input_tokens (handle_todos ts st) = captured_input_tokens st"
  "captured_output_tokens (handle_todos ts st) = captured_output_tokens st"
  by (simp_all add: handle_todos_def)

lemma handle_chunk_received:
  "received_chunks (trace (handle_chunk e tracking c st)) = received_chunks (trace st)"
  by (induction e tracking c st rule: handle_chunk.induct)
     (simp_all add: handle_todos_frame handle_message_frame)

text \<open>
  A property of the state that every step between chunks keeps, and every chunk keeps,
  holds when the stream ends and when the loop ends.
\<close>

lemma emit_append: "emit (xs @ ys) st = emit ys (emit xs st)"
  by (simp add: emit_def)

lemma emit_Cons: "emit (x # y # ys) st = emit (y # ys) (emit [x] st)"
  by (simp add: emit_def)

lemma emit_Nil [simp]: "emit [] st = st"
  by (simp add: emit_def)

lemma collect_decisions_invariant:
  assumes em: "\<And>st ev. I st \<Longrightarrow> notice ev \<Longrightarrow> I (emit [ev] st)"
  shows "I st \<Longrightarrow> collect_decisions e reqs ds st = (r, st') \<Longrightarrow> I st'"
proof (induction reqs arbitrary: ds st)
  case Nil
  then show ?case by simp
next
  case (Cons q reqs)
  have q: "I (emit [PromptForShellApproval q] st)"
    using Cons.prems(1) by (rule em) simp
  show ?case
  proof (cases "approval_key e (trace st @ [PromptForShellApproval q])")
    case CtrlC
    with Cons.prems(2) q show ?thesis by (simp add: Let_def)
  next
    case (Selected n)
    with Cons.prems(2) have
      "collect_decisions e reqs (ds @ [decision_of n]) (emit [PromptForShellApproval q] st) = (r, st')"
      by (simp add: Let_def)
    with q show ?thesis by (rule Cons.IH)
  qed
qed

lemma consume_stream_invariant:
  assumes chunk: "\<And>c st. I st \<Longrightarrow> interrupt_requests c = None \<Longrightarrow>
                    I (handle_chunk e tracking c (emit [Received c] st))"
    and intr: "\<And>c reqs st. I st \<Longrightarrow> interrupt_requests c = Some reqs \<Longrightarrow> I (emit [Received c] st)"
    and stop: "\<And>st. I st \<Longrightarrow> I (stop_spinner st)"
    and em: "\<And>st ev. I st \<Longrightarrow> notice ev \<Longrightarrow> I (emit [ev] st)"
  shows "I st \<Longrightarrow> consume_stream e tracking items st = (r, st') \<Longrightarrow> I st'"
proof (induction items arbitrary: st)
  case Nil
  then show ?case by simp
next
  case (Cons it items)
  show ?case
  proof (cases it)
    case (Yield c)
    show ?thesis
    proof (cases "interrupt_requests c")
      case None
      with Cons.prems(2) Yield have
        "consume_stream e tracking items (handle_chunk e tracking c (emit [Received c] st)) = (r, st')"
        by (simp add: Let_def)
      moreover have "I (handle_chunk e tracking c (emit [Received c] st))"
        using Cons.prems(1) None by (rule chunk)
      ultimately show ?thesis by (rule Cons.IH[rotated])
    next
      case (Some reqs)
      have i1: "I (stop_spinner (emit [Received c] st))"
        using Cons.prems(1) Some by (intro stop intr)
      obtain d s2 where cd: "collect_decisions e reqs [] (stop_spinner (emit [Received c] st)) = (d, s2)"
        by (cases "collect_decisions e reqs [] (stop_spinner (emit [Received c] st))")
      have "I s2" using em i1 cd by (rule collect_decisions_invariant)
      moreover from Cons.prems(2) Yield Some cd have "st' = s2"
        by (simp add: Let_def split: option.splits)
      ultimately show ?thesis by simp
    qed
  next
    case RaiseKeyboardInterrupt
    with Cons.prems show ?thesis by simp
  next
    case (RaiseException x)
    with Cons.prems show ?thesis by simp
  qed
qed


lemma on_keyboard_interrupt_invariant:
  assumes em: "\<And>st ev. I st \<Longrightarrow> notice ev \<Longrightarrow> I (emit [ev] st)"
  shows "I st \<Longrightarrow> I (on_keyboard_interrupt st)"
proof -
  assume i: "I st"
  have a: "I (emit [Print InterruptedNotice] st)"
    using i by (rule em) simp
  have "I (emit [StatusStop] st)"
    using i by (rule em) simp
  then have b: "I (emit [Print InterruptedNotice] (emit [StatusStop] st))"
    by (rule em) simp
  show ?thesis
    using a b by (simp add: on_keyboard_interrupt_def emit_Cons)
qed

lemma resume_rejected_invariant:
  assumes stop: "\<And>st. I st \<Longrightarrow> I (stop_spinner st)"
    and em: "\<And>st ev. I st \<Longrightarrow> notice ev \<Longrightarrow> I (emit [ev] st)"
  shows "I st \<Longrightarrow> resume_rejected e ds st = (out, st') \<Longrightarrow> I st'"
proof -
  assume i: "I st" and rr: "resume_rejected e ds st = (out, st')"
  define s1 where "s1 = emit [AgentInvoke (ResumeCommand ds)] (stop_spinner st)"
  have i1: "I s1"
    unfolding s1_def using i by (intro em stop) simp_all
  have r1: "I (emit [Print RejectedNotice] s1)"
    using i1 by (rule em) simp
  have "I (emit [Print (ResumeError err)] s1)" for err
    using i1 by (rule em) simp
  then have r2: "I (emit [Print RejectedNotice] (emit [Print (ResumeError err)] s1))" for err
    by (rule em) simp
  have r3: "I (on_keyboard_interrupt (emit [Print RejectedNotice] s1))"
    using em r1 by (rule on_keyboard_interrupt_invariant)
  show ?thesis
  proof (cases "agent_invoke e (trace s1)")
    case InvokeReturns
    with rr r1 show ?thesis
      by (auto simp: resume_rejected_def Let_def s1_def)
  next
    case (InvokeRaises err)
    with rr r1 r2[of err] show ?thesis
      by (auto simp: resume_rejected_def Let_def s1_def emit_Cons split: option.splits)
  next
    case InvokeKeyboardInterrupt
    with rr r3 show ?thesis
      by (auto simp: resume_rejected_def Let_def s1_def)
  qed
qed

lemma stream_loop_invariant:
  assumes chunk: "\<And>c st. I st \<Longrightarrow> interrupt_requests c = None \<Longrightarrow>
                    I (handle_chunk e tracking c (emit [Received c] st))"
    and intr: "\<And>c reqs st. I st \<Longrightarrow> interrupt_requests c = Some reqs \<Longrightarrow> I (emit [Received c] st)"
    and stop: "\<And>st. I st \<Longrightarrow> I (stop_spinner st)"
    and em: "\<And>st ev. I st \<Longrightarrow> notice ev \<Longrightarrow> I (emit [ev] st)"
  shows "I st \<Longrightarrow> stream_loop fuel e tracking inp st = Some (out, st') \<Longrightarrow> I st'"
proof (induction fuel arbitrary: inp st)
  case 0
  then show ?case by simp
next
  case (Suc fuel)
  define s1 where "s1 = emit [AgentStream inp] st"
  have i1: "I s1"
    unfolding s1_def using Suc.prems(1) by (rule em) simp
  obtain r s2 where cs: "consume_stream e tracking (agent_stream e (trace s1)) s1 = (r, s2)"
    by (cases "consume_stream e tracking (agent_stream e (trace s1)) s1")
  have i2: "I s2"
    using chunk intr stop em i1 cs by (rule consume_stream_invariant)
  from Suc.prems(2) cs have loop:
    "(case r of
        Exhausted \<Rightarrow> Some (Completed, s2)
      | KeyboardInterrupted \<Rightarrow> Some (InterruptedByUser, on_keyboard_interrupt s2)
      | Raised err \<Rightarrow> Some (Errored err, s2)
      | Interrupted decisions \<Rightarrow>
          (if list_ex is_reject decisions then Some (resume_rejected e decisions s2)
           else stream_loop fuel e tracking (ResumeCommand decisions) s2)) = Some (out, st')"
    by (simp add: Let_def s1_def)
  show ?case
  proof (cases r)
    case Exhausted
    with loop i2 show ?thesis by simp
  next
    case (Interrupted ds)
    show ?thesis
    proof (cases "list_ex is_reject ds")
      case True
      with loop Interrupted have "resume_rejected e ds s2 = (out, st')" by simp
      with stop em i2 show ?thesis by (rule resume_rejected_invariant)
    next
      case False
      with loop Interrupted have "stream_loop fuel e tracking (ResumeCommand ds) s2 = Some (out, st')"
        by simp
      with i2 show ?thesis by (rule Suc.IH)
    qed
  next
    case KeyboardInterrupted
    with loop have "st' = on_keyboard_interrupt s2" by simp
    with on_keyboard_interrupt_invariant[of I, OF em i2] show ?thesis by simp
  next
    case (Raised err)
    with loop i2 show ?thesis by simp
  qed
qed

section \<open>The todo list, snapshot by snapshot\<close>

lemma remdups_adj_snoc:
  "remdups_adj (xs @ [x]) =
     (if xs \<noteq> [] \<and> last xs = x then remdups_adj xs else remdups_adj xs @ [x])"
  by (induction xs rule: remdups_adj.induct) auto

lemma received_todos_simps [simp]:
  "received_todos [] = []"
  "received_todos (ev # es) = (case ev of Received c \<Rightarrow> chunk_todos c | _ \<Rightarrow> []) @ received_todos es"
  by (simp_all add: received_todos_def split: event.splits)

lemma usage_reports_simps [simp]:
  "usage_reports [] = []"
  "usage_reports (ev # es) = (case ev of Received c \<Rightarrow> chunk_usage c | _ \<Rightarrow> []) @ usage_reports es"
  by (simp_all add: usage_reports_def split: event.splits)

lemma received_todos_frame:
  "received_chunks (trace st') = received_chunks (trace st) \<Longrightarrow>
   received_todos (trace st') = received_todos (trace st)"
  by (simp add: received_todos_def)

lemma interrupt_chunk_views:
  assumes "interrupt_requests c = Some reqs"
  shows "chunk_todos c = []" and "chunk_usage c = []"
  using assms by (induction c rule: interrupt_requests.induct) simp_all

lemma todos_consistent_notice:
  "todos_consistent st \<Longrightarrow> notice ev \<Longrightarrow> todos_consistent (emit [ev] st)"
  by (simp add: todos_consistent_def received_todos_def notice_views)

lemma todos_consistent_stop:
  "todos_consistent st \<Longrightarrow> todos_consistent (stop_spinner st)"
  by (simp add: todos_consistent_def received_todos_def)

lemma todos_consistent_interrupt:
  "todos_consistent st \<Longrightarrow> interrupt_requests c = Some reqs \<Longrightarrow>
   todos_consistent (emit [Received c] st)"
  by (simp add: todos_consistent_def interrupt_chunk_views)

lemma todos_consistent_todos:
  assumes "todos_consistent st"
  shows "todos_consistent (handle_todos ts (emit [Received (Updates (UpdDict None (Some ts)))] st))"
  using assms
  by (auto simp: todos_consistent_def handle_todos_def remdups_adj_snoc)

lemma todos_consistent_chunk:
  assumes "todos_consistent st" and "interrupt_requests c = None"
  shows "todos_consistent (handle_chunk e tracking c (emit [Received c] st))"
proof (cases "\<exists>ts. c = Updates (UpdDict None (Some ts))")
  case True
  then show ?thesis using assms(1) by (auto simp: todos_consistent_todos)
next
  case False
  with assms(2) have nt: "chunk_todos c = []"
    by (induction c rule: chunk_todos.induct) simp_all
  have "c = Updates (UpdDict i (Some ts)) \<Longrightarrow> False" for i ts
    using False assms(2) by (cases i) auto
  then have h: "rendered_todos (trace (handle_chunk e tracking c s)) = rendered_todos (trace s)
       \<and> current_todos (handle_chunk e tracking c s) = current_todos s" for s
    by (induction e tracking c s rule: handle_chunk.induct) (auto simp: handle_message_frame)
  have r: "received_todos (trace (handle_chunk e tracking c s)) = received_todos (trace s)" for s
    by (rule received_todos_frame) (rule handle_chunk_received)
  show ?thesis
    using assms(1) nt by (simp add: todos_consistent_def h r)
qed

lemma todos_consistent_loop:
  assumes "todos_consistent st" and "stream_loop fuel e tracking inp st = Some (out, st')"
  shows "todos_consistent st'"
  using todos_consistent_chunk todos_consistent_interrupt todos_consistent_stop
    todos_consistent_notice assms
  by (rule stream_loop_invariant[where I = todos_consistent])


text \<open>
  The ways \<open>execute_task\<close> ends: an exception out of \<open>parse_file_mentions\<close>,
  the end of the last stream, or a return from inside the loop.
\<close>

lemma resolve_mentions_views:
  "resolve_mentions f ms found out = (out', r) \<Longrightarrow>
   received_chunks out' = received_chunks out \<and> rendered_todos out' = rendered_todos out
   \<and> agent_texts out' = agent_texts out"
proof (induction ms arbitrary: found out)
  case Nil
  then show ?case by simp
next
  case (Cons m ms)
  from Cons.prems show ?case
    by (auto simp: Let_def split: option.splits sum.splits bool.splits if_splits
        dest!: Cons.IH)
qed

lemma parse_file_mentions_views:
  assumes "parse_file_mentions f text = (out, r)"
  shows "received_chunks out = []" and "rendered_todos out = []" and "agent_texts out = []"
  using assms resolve_mentions_views[of f "find_mentions text" "[]" "[]"]
  by (auto simp: parse_file_mentions_def split: prod.splits sum.splits)

lemma finish_views:
  assumes "finish tracker st = (t', tr)"
  shows "received_chunks tr = received_chunks (trace st)"
    and "rendered_todos tr = rendered_todos (trace st)"
    and "agent_texts tr = agent_texts (trace st)"
  using assms
  by (auto simp: finish_def display_last_def Let_def split: if_splits option.splits)

lemma execute_task_cases:
  assumes "execute_task fuel e user_input tracker = Some (out, t', tr)"
  obtains
    (parse_error) warnings err where
      "parse_file_mentions (files e) user_input = (warnings, Inl err)"
      "out = Errored err" "t' = tracker" "tr = Print Blank # warnings"
  | (completed) warnings prompt_text mentioned st where
      "parse_file_mentions (files e) user_input = (warnings, Inr (prompt_text, mentioned))"
      "stream_loop fuel e (tracker \<noteq> None)
         (UserMessages (final_input (files e) prompt_text mentioned))
         (initial_state (Print Blank # warnings)) = Some (Completed, st)"
      "out = Completed" "finish tracker st = (t', tr)"
  | (stopped) warnings prompt_text mentioned st where
      "parse_file_mentions (files e) user_input = (warnings, Inr (prompt_text, mentioned))"
      "stream_loop fuel e (tracker \<noteq> None)
         (UserMessages (final_input (files e) prompt_text mentioned))
         (initial_state (Print Blank # warnings)) = Some (out, st)"
      "out \<noteq> Completed" "t' = tracker" "tr = trace st"
proof -
  obtain warnings r where p: "parse_file_mentions (files e) user_input = (warnings, r)"
    by (cases "parse_file_mentions (files e) user_input")
  show thesis
  proof (cases r)
    case (Inl err)
    with assms p show thesis
      by (intro parse_error[of warnings err]) (simp_all add: execute_task_def)
  next
    case (Inr res)
    obtain prompt_text mentioned where res: "res = (prompt_text, mentioned)"
      by (cases res)
    let ?loop = "stream_loop fuel e (tracker \<noteq> None)
         (UserMessages (final_input (files e) prompt_text mentioned))
         (initial_state (Print Blank # warnings))"
    from assms p Inr res have ex:
      "(case ?loop of None \<Rightarrow> None
        | Some (Completed, st) \<Rightarrow>
            (case finish tracker st of (t, es) \<Rightarrow> Some (Completed, t, es))
        | Some (out, st) \<Rightarrow> Some (out, tracker, trace st)) = Some (out, t', tr)"
      by (simp add: execute_task_def)
    then obtain o' st where l: "?loop = Some (o', st)"
      by (cases ?loop) auto
    show thesis
    proof (cases "o' = Completed")
      case True
      with ex l have "finish tracker st = (t', tr)" and "out = Completed"
        by (auto split: prod.splits)
      with p Inr res l True show thesis
        by (intro completed[of warnings prompt_text mentioned st]) simp_all
    next
      case False
      with ex l have "out = o'" and "t' = tracker" and "tr = trace st"
        by (cases o'; simp)+
      with p Inr res l False show thesis
        by (intro stopped[of warnings prompt_text mentioned st]) simp_all
    qed
  qed
qed

lemma initial_state_fields [simp]:
  "trace (initial_state es) = es @ [StatusStart]"
  "has_responded (initial_state es) = False"
  "spinner_active (initial_state es) = True"
  "current_todos (initial_state es) = None"
  "captured_input_tokens (initial_state es) = 0"
  "captured_output_tokens (initial_state es) = 0"
  by (simp_all add: initial_state_def)

section \<open>Sample turns\<close>

lemmas turn_defs =
  execute_task_def parse_file_mentions_def find_mentions_def final_input_def finish_def
  Let_def emit_def stop_spinner_def initial_state_def handle_todos_def

lemma sample_turn_todos:
  "execute_task (Suc 0)
     (sample_env [todos_update sample_todos, todos_update sample_todos] [] InvokeReturns 0)
     ''plan'' None =
   Some (Completed, None,
     [Print Blank, StatusStart, AgentStream (UserMessages ''plan''),
      Received (Updates (UpdDict None (Some sample_todos))),
      StatusStop, Print Blank, RenderTodoList sample_todos, Print Blank,
      Received (Updates (UpdDict None (Some sample_todos)))])"
  by (simp add: turn_defs sample_env_def sample_fs_def last_input_of_def todos_update_def)

section \<open>The captured token counts, chunk by chunk\<close>

lemma Max_snoc:
  "Max (set (0 # xs @ [x])) = max (Max (set (0 # xs))) (x::nat)"
proof -
  have "set (0 # xs @ [x]) = insert x (set (0 # xs))" by auto
  then show ?thesis by (simp add: max.commute)
qed

lemma usage_captured_notice:
  "usage_captured st \<Longrightarrow> notice ev \<Longrightarrow> usage_captured (emit [ev] st)"
  by (simp add: usage_captured_def usage_reports_def notice_views)

lemma usage_captured_stop:
  "usage_captured st \<Longrightarrow> usage_captured (stop_spinner st)"
  by (simp add: usage_captured_def usage_reports_def)

lemma usage_captured_interrupt:
  "usage_captured st \<Longrightarrow> interrupt_requests c = Some reqs \<Longrightarrow>
   usage_captured (emit [Received c] st)"
  by (simp add: usage_captured_def interrupt_chunk_views)

lemma usage_reports_frame:
  "received_chunks (trace st') = received_chunks (trace st) \<Longrightarrow>
   usage_reports (trace st') = usage_reports (trace st)"
  by (simp add: usage_reports_def)

lemma usage_captured_message:
  assumes "usage_captured st"
  shows "usage_captured (handle_message e True m (emit [Received (Messages (MsgPair m))] st))"
proof (cases m)
  case (ToolMessage n s c)
  have "usage_reports (trace (handle_message e True m (emit [Received (Messages (MsgPair m))] st)))
      = usage_reports (trace (emit [Received (Messages (MsgPair m))] st))"
    by (rule usage_reports_frame) (rule handle_message_frame)
  moreover have "captured_input_tokens (handle_message e True m s') = captured_input_tokens s'
      \<and> captured_output_tokens (handle_message e True m s') = captured_output_tokens s'" for s'
    using ToolMessage by (simp add: Let_def)
  ultimately show ?thesis
    using assms ToolMessage by (simp add: usage_captured_def)
next
  case OtherMessage
  with assms show ?thesis by (simp add: usage_captured_def)
next
  case (AIMessageChunk u bs)
  let ?s1 = "emit [Received (Messages (MsgPair m))] st"
  have r: "usage_reports (trace (handle_message e True m ?s1)) = usage_reports (trace st) @ chunk_usage (Messages (MsgPair m))"
    using usage_reports_frame[of "handle_message e True m ?s1" ?s1] handle_message_frame(1)[of e True m ?s1]
    by simp
  have c: "captured_input_tokens (handle_message e True m ?s1) = captured_input_tokens (capture_usage True u st)
         \<and> captured_output_tokens (handle_message e True m ?s1) = captured_output_tokens (capture_usage True u st)"
    using AIMessageChunk by (simp add: handle_blocks_frame capture_usage_def split: option.splits prod.splits)
  show ?thesis
  proof (cases u)
    case None
    with assms AIMessageChunk r c show ?thesis
      by (simp add: usage_captured_def capture_usage_def)
  next
    case (Some io)
    obtain i out where io: "io = (i, out)" by (cases io)
    show ?thesis
    proof (cases "i \<noteq> 0 \<or> out \<noteq> 0")
      case True
      with assms AIMessageChunk Some io r c show ?thesis
        using Max_snoc[of "map fst (usage_reports (trace st))" i]
          Max_snoc[of "map snd (usage_reports (trace st))" out]
        by (simp add: usage_captured_def capture_usage_def)
    next
      case False
      with assms AIMessageChunk Some io r c show ?thesis
        by (simp add: usage_captured_def capture_usage_def)
    qed
  qed
qed

lemma usage_captured_chunk:
  assumes "usage_captured st" and "interrupt_requests c = None"
  shows "usage_captured (handle_chunk e True c (emit [Received c] st))"
proof (cases "\<exists>m. c = Messages (MsgPair m)")
  case True
  then show ?thesis using assms(1) by (auto simp: usage_captured_message)
next
  case False
  then have nu: "chunk_usage c = []"
    by (induction c rule: chunk_usage.induct) simp_all
  have h: "captured_input_tokens (handle_chunk e True c s) = captured_input_tokens s
       \<and> captured_output_tokens (handle_chunk e True c s) = captured_output_tokens s" for s
    using False
    by (induction e "True" c s rule: handle_chunk.induct) (auto simp: handle_todos_frame)
  have r: "usage_reports (trace (handle_chunk e True c s)) = usage_reports (trace s)" for s
    by (rule usage_reports_frame) (rule handle_chunk_received)
  show ?thesis
    using assms(1) nu by (simp add: usage_captured_def h r)
qed

lemmas item_defs = sample_env_def sample_fs_def sample_loads_def last_input_of_def
  ai_def ai_usage_def todos_update_def interrupt_def

lemma sample_loop_usage:
  "stream_loop (Suc 0)
     (sample_env [ai_usage 10 200 [TextBlock ''ok''], ai_usage 12 150 [], ai_usage 12 150 []]
        [] InvokeReturns 0)
     True (UserMessages ''hi'') (initial_state []) =
   Some (Completed,
     \<lparr>has_responded = True, captured_input_tokens = 12, captured_output_tokens = 200,
      current_todos = None, spinner_active = False,
      trace =
        [StatusStart, AgentStream (UserMessages ''hi''),
         Received (Messages (MsgPair (AIMessageChunk (Some (10, 200)) [TextBlock ''ok'']))),
         StatusStop, Print AgentMarker, Print (AgentText ''ok''),
         Received (Messages (MsgPair (AIMessageChunk (Some (12, 150)) []))),
         Received (Messages (MsgPair (AIMessageChunk (Some (12, 150)) [])))]\<rparr>)"
  by (simp add: turn_defs item_defs capture_usage_def)

lemma sample_turn_silent:
  "execute_task (Suc 0)
     (sample_env [ai_usage 10 2000 [ToolCallChunk (Some ''ls'') None]] [] InvokeReturns 0)
     ''go'' (Some new_tracker) =
   Some (Completed, Some new_tracker,
     [Print Blank, StatusStart, AgentStream (UserMessages ''go''),
      Received (Messages (MsgPair (AIMessageChunk (Some (10, 2000)) [ToolCallChunk (Some ''ls'') None]))),
      StatusStop, Print (ToolCallLine IconLs ''ls'' []), StatusStart, StatusStop])"
  by (simp add: turn_defs item_defs capture_usage_def tool_icon_def tool_icons_def
      format_tool_args_def)

section \<open>Text fragments and \<open>has_responded\<close>\<close>

lemma text_shown_notice:
  "text_shown st \<Longrightarrow> notice ev \<Longrightarrow> text_shown (emit [ev] st)"
  by (simp add: text_shown_def notice_views)

lemma text_shown_stop:
  "text_shown st \<Longrightarrow> text_shown (stop_spinner st)"
  by (simp add: text_shown_def)

lemma text_shown_interrupt:
  "text_shown st \<Longrightarrow> interrupt_requests c = Some reqs \<Longrightarrow> text_shown (emit [Received c] st)"
  by (simp add: text_shown_def)

lemma text_shown_block:
  "text_shown st \<Longrightarrow> text_shown (handle_block e b st)"
  by (cases b) (auto simp: text_shown_def Let_def split: option.splits)

lemma text_shown_blocks:
  "text_shown st \<Longrightarrow> text_shown (handle_blocks e bs st)"
  by (induction bs arbitrary: st) (simp_all add: text_shown_block)

lemma text_shown_message:
  "text_shown st \<Longrightarrow> text_shown (handle_message e tracking m st)"
proof (cases m)
  case (AIMessageChunk u bs)
  assume "text_shown st"
  then have "text_shown (capture_usage tracking u st)"
    by (simp add: text_shown_def)
  then show ?thesis
    using AIMessageChunk by (simp add: text_shown_blocks)
qed (auto simp: text_shown_def Let_def)

lemma text_shown_chunk:
  assumes "text_shown st" and "interrupt_requests c = None"
  shows "text_shown (handle_chunk e tracking c (emit [Received c] st))"
proof -
  have "text_shown (emit [Received c] st)"
    using assms(1) by (simp add: text_shown_def)
  moreover have "text_shown s \<Longrightarrow> text_shown (handle_chunk e tracking c s)" for s
    by (induction e tracking c s rule: handle_chunk.induct)
       (simp_all add: text_shown_message, simp add: text_shown_def handle_todos_frame)
  ultimately show ?thesis by simp
qed

section \<open>The spinner after a redraw of the todo list\<close>

lemma since_redraw_empty:
  "rendered_todos es = [] \<Longrightarrow> since_redraw es = []"
  by (induction es rule: since_redraw.induct) simp_all

lemma spinner_quiet_emit:
  assumes "spinner_quiet st" and "rendered_todos es = []" and "StatusStart \<notin> set es"
  shows "spinner_quiet (emit es st)"
  using assms by (auto simp: spinner_quiet_def since_redraw_append since_redraw_empty)

lemma spinner_quiet_notice:
  assumes "spinner_quiet st" and "notice ev"
  shows "spinner_quiet (emit [ev] st)"
proof (rule spinner_quiet_emit)
  show "spinner_quiet st" by fact
  show "rendered_todos [ev] = []" using assms(2) by (rule notice_views)
  show "StatusStart \<notin> set [ev]" using notice_views(4)[OF assms(2)] by simp
qed

lemma spinner_quiet_stop:
  "spinner_quiet st \<Longrightarrow> spinner_quiet (stop_spinner st)"
  by (auto simp: spinner_quiet_def since_redraw_append since_redraw_empty)

lemma spinner_quiet_interrupt:
  "spinner_quiet st \<Longrightarrow> interrupt_requests c = Some reqs \<Longrightarrow>
   spinner_quiet (emit [Received c] st)"
  by (rule spinner_quiet_emit) simp_all

lemma spinner_quiet_block:
  "spinner_quiet st \<Longrightarrow> spinner_quiet (handle_block e b st)"
  by (cases b)
     (auto simp: spinner_quiet_def since_redraw_append since_redraw_empty Let_def
           split: option.splits)

lemma spinner_quiet_blocks:
  "spinner_quiet st \<Longrightarrow> spinner_quiet (handle_blocks e bs st)"
  by (induction bs arbitrary: st) (simp_all add: spinner_quiet_block)

lemma spinner_quiet_message:
  "spinner_quiet st \<Longrightarrow> spinner_quiet (handle_message e tracking m st)"
proof (cases m)
  case (AIMessageChunk u bs)
  assume "spinner_quiet st"
  then have "spinner_quiet (capture_usage tracking u st)"
    by (simp add: spinner_quiet_def)
  then show ?thesis
    using AIMessageChunk by (simp add: spinner_quiet_blocks)
qed (auto simp: spinner_quiet_def since_redraw_append since_redraw_empty Let_def)

lemma spinner_quiet_todos:
  "spinner_quiet st \<Longrightarrow> spinner_quiet (handle_todos ts st)"
  by (auto simp: spinner_quiet_def handle_todos_def since_redraw_append since_redraw_empty)

lemma spinner_quiet_chunk:
  assumes "spinner_quiet st" and "interrupt_requests c = None"
  shows "spinner_quiet (handle_chunk e tracking c (emit [Received c] st))"
proof -
  have "spinner_quiet (emit [Received c] st)"
    using assms(1) by (rule spinner_quiet_emit) simp_all
  moreover have "spinner_quiet s \<Longrightarrow> spinner_quiet (handle_chunk e tracking c s)" for s
    by (induction e tracking c s rule: handle_chunk.induct)
       (simp_all add: spinner_quiet_message spinner_quiet_todos)
  ultimately show ?thesis by simp
qed

lemma finish_since_redraw:
  assumes "finish tracker st = (t', tr)" and "StatusStart \<notin> set (since_redraw (trace st))"
  shows "StatusStart \<notin> set (since_redraw tr)"
proof -
  obtain es where es: "tr = trace st @ es" and no: "rendered_todos es = []" "StatusStart \<notin> set es"
  proof (cases "has_responded st")
    case False
    with assms(1) have "tr = trace st @ (if spinner_active st then [StatusStop] else [])"
      by (simp add: finish_def Let_def)
    then show thesis by (intro that) auto
  next
    case True
    define stop where "stop = (if spinner_active st then [StatusStop] else [])"
    have "\<exists>mid. tr = trace st @ stop @ [Print Blank] @ mid @ [Print Blank]
            \<and> (mid = [] \<or> (\<exists>n. mid = [Print (TokensLine n)]))"
      using assms(1) True
      by (cases tracker)
         (auto simp: finish_def Let_def stop_def display_last_def split: if_splits)
    then obtain mid where "tr = trace st @ (stop @ [Print Blank] @ mid @ [Print Blank])"
      and "mid = [] \<or> (\<exists>n. mid = [Print (TokensLine n)])"
      by auto
    then show thesis
      by (intro that[of "stop @ [Print Blank] @ mid @ [Print Blank]"]) (auto simp: stop_def)
  qed
  show ?thesis
    using assms(2) no unfolding es
    by (auto simp: since_redraw_append since_redraw_empty)
qed

lemma sample_turn_redraw:
  "execute_task (Suc 0)
     (sample_env [todos_update sample_todos, ai [ToolCallChunk (Some ''ls'') None]]
        [] InvokeReturns 0)
     ''plan'' None =
   Some (Completed, None,
     [Print Blank, StatusStart, AgentStream (UserMessages ''plan''),
      Received (Updates (UpdDict None (Some sample_todos))),
      StatusStop, Print Blank, RenderTodoList sample_todos, Print Blank,
      Received (Messages (MsgPair (AIMessageChunk None [ToolCallChunk (Some ''ls'') None]))),
      Print (ToolCallLine IconLs ''ls'' [])])"
  by (simp add: turn_defs item_defs capture_usage_def tool_icon_def tool_icons_def
      format_tool_args_def)

section \<open>The state at an interrupt\<close>




section \<open>Tool call chunks, fragment by fragment\<close>

text \<open>
  A chunk that carries both the name and the arguments shows the arguments; a chunk
  with the name alone shows the line at once, with nothing between the parentheses, and
  a later chunk with the arguments alone shows nothing.
\<close>

lemma complete_chunk_shows_command:
  assumes "json_loads e ls_args = Some [(''command'', PyStr ''ls'')]"
  shows "tool_call_lines (trace (handle_block e (ToolCallChunk (Some ''shell'') (Some (PyStr ls_args))) st))
         = tool_call_lines (trace st) @ [(''shell'', ''command=ls'')]"
  using assms
  by (simp add: format_tool_args_def format_arg_def truncate_value_def ls_args_def)

lemma name_then_args_shows_name_only:
  assumes "a = None \<or> a = Some (PyStr [])"
  shows "tool_call_lines (trace (handle_blocks e
            [ToolCallChunk (Some ''shell'') a, ToolCallChunk None (Some (PyStr s))] st))
         = tool_call_lines (trace st) @ [(''shell'', [])]"
  using assms by (auto simp: format_tool_args_def)

lemma name_then_args_in_two_messages:
  assumes "a = None \<or> a = Some (PyStr [])"
  shows "tool_call_lines (trace (handle_message e tracking (AIMessageChunk u2 [ToolCallChunk None (Some (PyStr s))])
            (handle_message e tracking (AIMessageChunk u1 [ToolCallChunk (Some ''shell'') a]) st)))
         = tool_call_lines (trace st) @ [(''shell'', [])]"
  using assms by (auto simp: format_tool_args_def)

section \<open>Mentions that resolve and mentions that do not\<close>

text \<open>
  The example of the specification, the text returned, a file that does not exist, and
  the one way out of \<open>parse_file_mentions\<close> by an exception: \<^verbatim>\<open>expanduser\<close>.
\<close>

lemma backslash_space_is_one_token:
  "find_mentions (''@a.txt and @b'' @ [CHR 0x5C] @ '' c.txt'') = [''a.txt'', ''b'' @ [CHR 0x5C] @ '' c.txt'']
   \<and> map unescape_spaces (find_mentions (''@a.txt and @b'' @ [CHR 0x5C] @ '' c.txt''))
       = [''a.txt'', ''b c.txt'']"
  by (simp add: find_mentions_def mention_char_def is_space_def)

lemma parse_file_mentions_text_unchanged:
  "parse_file_mentions f text = (out, Inr (t, found)) \<Longrightarrow> t = text"
  by (auto simp: parse_file_mentions_def split: prod.splits sum.splits)

lemma missing_file_warns_and_others_resolve:
  "parse_file_mentions sample_fs ''fix @missing.py and @a.txt'' =
     ([Print (WarnFileNotFound ''missing.py'')],
      Inr (''fix @missing.py and @a.txt'', [''/work/a.txt'']))"
  by (simp add: parse_file_mentions_def find_mentions_def mention_char_def is_space_def
      sample_fs_def Let_def)

lemma resolve_mentions_returns:
  assumes "\<forall>m \<in> set ms. expanduser f (unescape_spaces m) \<noteq> None"
  shows "\<exists>out' found'. resolve_mentions f ms found out = (out', Inr found')"
  using assms
proof (induction ms arbitrary: found out)
  case Nil
  then show ?case by simp
next
  case (Cons m ms)
  then obtain p where p: "expanduser f (unescape_spaces m) = Some p" by auto
  from Cons.prems have rest: "\<forall>m \<in> set ms. expanduser f (unescape_spaces m) \<noteq> None" by simp
  show ?case
    using p Cons.IH[OF rest]
    by (simp add: Let_def split: sum.splits bool.splits)
qed

section \<open>The count of streams\<close>

text \<open>
  The count only bounds the streams the loop may open: a result is the same with any
  larger count, and the loop returns in the iteration whose stream does not end in an
  interrupt approved throughout.
\<close>

lemma stream_loop_more_fuel:
  "stream_loop fuel e tracking inp st = Some r \<Longrightarrow>
   stream_loop (fuel + k) e tracking inp st = Some r"
proof (induction fuel arbitrary: inp st)
  case 0
  then show ?case by simp
next
  case (Suc fuel)
  obtain x s2 where cs:
    "consume_stream e tracking (agent_stream e (trace st @ [AgentStream inp]))
       (emit [AgentStream inp] st) = (x, s2)"
    by (cases "consume_stream e tracking (agent_stream e (trace st @ [AgentStream inp]))
       (emit [AgentStream inp] st)")
  show ?case
  proof (cases x)
    case (Interrupted ds)
    show ?thesis
    proof (cases "list_ex is_reject ds")
      case True
      with Suc.prems cs Interrupted show ?thesis by (simp add: Let_def)
    next
      case False
      with Suc.prems cs Interrupted
      have "stream_loop fuel e tracking (ResumeCommand ds) s2 = Some r"
        by (simp add: Let_def)
      then have "stream_loop (fuel + k) e tracking (ResumeCommand ds) s2 = Some r"
        by (rule Suc.IH)
      with cs Interrupted False show ?thesis by (simp add: Let_def)
    qed
  qed (use Suc.prems cs in \<open>simp_all add: Let_def\<close>)
qed

lemma stream_loop_returns_unless_approved:
  assumes "consume_stream e tracking (agent_stream e (trace st @ [AgentStream inp]))
             (emit [AgentStream inp] st) = (x, s2)"
    and "\<forall>ds. x = Interrupted ds \<longrightarrow> list_ex is_reject ds"
  shows "\<exists>r. stream_loop (Suc fuel) e tracking inp st = Some r"
  using assms by (cases x) (simp_all add: Let_def)

lemma execute_task_more_fuel:
  assumes "execute_task fuel e user_input tracker = Some r"
  shows "execute_task (fuel + k) e user_input tracker = Some r"
proof -
  obtain warnings p where p: "parse_file_mentions (files e) user_input = (warnings, p)"
    by (cases "parse_file_mentions (files e) user_input")
  show ?thesis
  proof (cases p)
    case (Inl err)
    with assms p show ?thesis by (simp add: execute_task_def)
  next
    case (Inr res)
    obtain prompt_text mentioned where res: "res = (prompt_text, mentioned)" by (cases res)
    let ?loop = "\<lambda>n. stream_loop n e (tracker \<noteq> None)
         (UserMessages (final_input (files e) prompt_text mentioned))
         (initial_state (Print Blank # warnings))"
    from assms p Inr res obtain l where l: "?loop fuel = Some l"
      by (cases "?loop fuel") (auto simp: execute_task_def)
    then have "?loop (fuel + k) = Some l" by (rule stream_loop_more_fuel)
    with assms p Inr res l show ?thesis by (simp add: execute_task_def)
  qed
qed

section \<open>Tool results in the history of a turn\<close>

text \<open>
  What a tool result adds to the history, and the tool errors of a whole turn: the
  texts handed to the console are the formatted contents, where not empty, of the
  failed \<^verbatim>\<open>shell\<close> results received, in order; no other tool result prints.
\<close>

lemma handle_tool_message_trace:
  "trace (handle_message e tracking (ToolMessage tool_name tool_status content) st) =
     trace st @
     (if tool_name = Some ''shell'' \<and> tool_status \<noteq> ''success''
         \<and> format_tool_message_content content \<noteq> []
      then (if spinner_active st then [StatusStop] else [])
           @ [Print Blank, Print (ToolErrorText (format_tool_message_content content)), Print Blank]
      else [])"
  by (simp add: Let_def)

lemma tool_errors_append [simp]:
  "tool_errors (xs @ ys) = tool_errors xs @ tool_errors ys"
  by (induction xs rule: tool_errors.induct) simp_all

lemma notice_tool_errors:
  "notice ev \<Longrightarrow> tool_errors [ev] = []"
  by (induction ev rule: notice.induct) simp_all

lemma interrupt_chunk_tool_errors:
  "interrupt_requests c = Some reqs \<Longrightarrow> chunk_tool_errors c = []"
  by (induction c rule: interrupt_requests.induct) simp_all

lemma errors_shown_notice:
  "errors_shown st \<Longrightarrow> notice ev \<Longrightarrow> errors_shown (emit [ev] st)"
  by (simp add: errors_shown_def notice_views notice_tool_errors)

lemma errors_shown_stop:
  "errors_shown st \<Longrightarrow> errors_shown (stop_spinner st)"
  by (simp add: errors_shown_def)

lemma errors_shown_interrupt:
  "errors_shown st \<Longrightarrow> interrupt_requests c = Some reqs \<Longrightarrow>
   errors_shown (emit [Received c] st)"
  by (simp add: errors_shown_def interrupt_chunk_tool_errors)

lemma handle_block_tool_errors:
  "tool_errors (trace (handle_block e b st)) = tool_errors (trace st)"
  by (cases b) (simp_all add: Let_def split: option.splits)

lemma handle_blocks_tool_errors:
  "tool_errors (trace (handle_blocks e bs st)) = tool_errors (trace st)"
  by (induction bs arbitrary: st) (simp_all add: handle_block_tool_errors)

lemma handle_message_tool_errors:
  "tool_errors (trace (handle_message e tracking m st)) =
     tool_errors (trace st) @ chunk_tool_errors (Messages (MsgPair m))"
  by (cases m) (simp_all add: Let_def handle_blocks_tool_errors)

lemma handle_chunk_tool_errors:
  "tool_errors (trace (handle_chunk e tracking c st)) = tool_errors (trace st) @ chunk_tool_errors c"
  by (induction e tracking c st rule: handle_chunk.induct)
     (simp_all add: handle_message_tool_errors handle_todos_def)

lemma errors_shown_chunk:
  assumes "errors_shown st" and "interrupt_requests c = None"
  shows "errors_shown (handle_chunk e tracking c (emit [Received c] st))"
  using assms(1)
  by (simp add: errors_shown_def handle_chunk_tool_errors handle_chunk_received)

lemma resolve_mentions_tool_errors:
  "resolve_mentions f ms found out = (out', r) \<Longrightarrow> tool_errors out' = tool_errors out"
proof (induction ms arbitrary: found out)
  case Nil
  then show ?case by simp
next
  case (Cons m ms)
  from Cons.prems show ?case
    by (auto simp: Let_def split: option.splits sum.splits bool.splits if_splits
        dest!: Cons.IH)
qed

lemma parse_file_mentions_tool_errors:
  assumes "parse_file_mentions f text = (out, r)"
  shows "tool_errors out = []"
  using assms resolve_mentions_tool_errors[of f "find_mentions text" "[]" "[]"]
  by (auto simp: parse_file_mentions_def split: prod.splits sum.splits)

lemma finish_tool_errors:
  assumes "finish tracker st = (t', tr)"
  shows "tool_errors tr = tool_errors (trace st)"
  using assms
  by (auto simp: finish_def display_last_def Let_def split: if_splits option.splits)

lemma shell_errors_in_history:
  assumes "execute_task fuel e user_input tracker = Some (out, t', tr)"
  shows "tool_errors tr = concat (map chunk_tool_errors (received_chunks tr))"
proof -
  have init: "errors_shown (initial_state (Print Blank # warnings))"
    if "parse_file_mentions (files e) user_input = (warnings, r)" for warnings r
    using parse_file_mentions_views[OF that] parse_file_mentions_tool_errors[OF that]
    by (simp add: errors_shown_def)
  have loop: "errors_shown s'"
    if "errors_shown s" and "stream_loop fuel e tracking inp s = Some (res, s')"
    for s s' tracking inp res
    using errors_shown_chunk errors_shown_interrupt errors_shown_stop errors_shown_notice that
    by (rule stream_loop_invariant[where I = errors_shown])
  from assms show ?thesis
  proof (cases rule: execute_task_cases)
    case (parse_error warnings err)
    then show ?thesis
      using parse_file_mentions_views[OF parse_error(1)]
        parse_file_mentions_tool_errors[OF parse_error(1)] by simp
  next
    case (completed warnings prompt_text mentioned s)
    have "errors_shown s"
      using init[OF completed(1)] completed(2) by (rule loop)
    then show ?thesis
      using finish_views[OF completed(4)] finish_tool_errors[OF completed(4)]
      by (simp add: errors_shown_def)
  next
    case (stopped warnings prompt_text mentioned s)
    have "errors_shown s"
      using init[OF stopped(1)] stopped(2) by (rule loop)
    with stopped(5) show ?thesis by (simp add: errors_shown_def)
  qed
qed

text \<open>
  A resumption call that raises an exception whose text Rich cannot read: the notice of
  rejection is printed and the exception of the print leaves the turn.
\<close>

lemma unreadable_report_leaves_the_turn:
  "execute_task (Suc 0) unreadable_env ''clean'' None =
   Some (Errored ''MarkupError'', None,
     [Print Blank, StatusStart, AgentStream (UserMessages ''clean''),
      Received (Messages (MsgPair (AIMessageChunk None [TextBlock ''hi'']))),
      StatusStop, Print AgentMarker, Print (AgentText ''hi''),
      Received (Updates (UpdDict (Some [ActionRequest (Some ''rm -rf build'')]) None)),
      PromptForShellApproval (ActionRequest (Some ''rm -rf build'')),
      AgentInvoke (ResumeCommand [Reject ''User rejected the command'']),
      Print RejectedNotice])"
  by (simp add: unreadable_env_def turn_defs item_defs capture_usage_def decision_of_def
      resume_rejected_def sample_markup_def resume_error_text_def)

section \<open>TokenTracker.add (C8)\<close>

text \<open>
  C8. Two calls of \<open>add\<close> from the same tracker give the same session totals in
  either order, and the last-turn fields hold the arguments of the second call only.
\<close>

theorem add_session_totals_commute:
  "session_input (add (add t a b) c d) = session_input (add (add t c d) a b)
   \<and> session_output (add (add t a b) c d) = session_output (add (add t c d) a b)
   \<and> last_input (add (add t a b) c d) = c
   \<and> last_output (add (add t a b) c d) = d"
  by (simp add: add_def)

section \<open>Argument values on a tool call line (C2)\<close>

text \<open>
  The limit of \<open>truncate_value\<close> is its second argument. Left out, it is 150; the
  tool call line passes 50.
\<close>

lemma truncate_value_default_150:
  "truncate_value_default v = (if length v > 150 then take 150 v @ ''...'' else v)"
  by (simp add: truncate_value_default_def truncate_value_def MAX_ARG_LENGTH_def)




section \<open>Tool results (C5)\<close>

text \<open>
  C5 at a failed \<^verbatim>\<open>shell\<close> result whose content begins with a style tag, followed
  by a text fragment of the agent with the same text. Both are printed, the tool error
  with markup on and the fragment with \<^verbatim>\<open>markup=False\<close>: the console shows the
  fragment as it is and the tool error without its tag.
\<close>

theorem shell_error_is_read_as_markup:
  "execute_task (Suc 0)
     (sample_env [tool_result ''shell'' ''error'' ''[error] build failed'',
                  ai [TextBlock ''[error] build failed'']] [] InvokeReturns 0)
     ''build'' None =
   Some (Completed, None,
     [Print Blank, StatusStart, AgentStream (UserMessages ''build''),
      Received (Messages (MsgPair (ToolMessage (Some ''shell'') ''error''
        (ContentOther (PyStr ''[error] build failed''))))),
      StatusStop, Print Blank, Print (ToolErrorText ''[error] build failed''), Print Blank,
      Received (Messages (MsgPair (AIMessageChunk None [TextBlock ''[error] build failed'']))),
      Print AgentMarker, Print (AgentText ''[error] build failed''),
      Print Blank, Print Blank])
   \<and> console_shows (sample_env [] [] InvokeReturns 0)
        (markup_on (ToolErrorText ''[error] build failed'')) ''[error] build failed''
       = Some '' build failed''
   \<and> console_shows (sample_env [] [] InvokeReturns 0)
        (markup_on (AgentText ''[error] build failed'')) ''[error] build failed''
       = Some ''[error] build failed''"
  by (simp add: turn_defs item_defs capture_usage_def tool_result_def console_shows_def
      sample_markup_def)

section \<open>Todo redraws (C7)\<close>

text \<open>
  C7. In the history of a turn the todo lists redrawn are the snapshots that arrived,
  with every snapshot equal to the one before it left out: a snapshot is redrawn if and
  only if it differs from the one redrawn last (the first one always), so the same
  snapshot twice in succession is redrawn once. The comparison is the one of
  \<open>handle_todos\<close>, inequality of the whole list with \<open>current_todos\<close>. A
  redraw is the call of \<^verbatim>\<open>render_todo_list\<close> between two blank lines; for an
  empty list the call draws no panel.
\<close>

theorem todo_redrawn_iff_changed:
  assumes "execute_task fuel e user_input tracker = Some (out, t', tr)"
  shows "rendered_todos tr = remdups_adj (received_todos tr)
    \<and> rendered_todos (trace (handle_todos ts st)) =
        rendered_todos (trace st) @ (if Some ts \<noteq> current_todos st then [ts] else [])"
proof -
  have step: "rendered_todos (trace (handle_todos ts st)) =
        rendered_todos (trace st) @ (if Some ts \<noteq> current_todos st then [ts] else [])"
    by (simp add: handle_todos_def)
  have init: "todos_consistent (initial_state (Print Blank # warnings))"
    if "parse_file_mentions (files e) user_input = (warnings, r)" for warnings r
    using parse_file_mentions_views[OF that]
    by (simp add: todos_consistent_def received_todos_def)
  from assms have "rendered_todos tr = remdups_adj (received_todos tr)"
  proof (cases rule: execute_task_cases)
    case (parse_error warnings err)
    then show ?thesis
      using parse_file_mentions_views[OF parse_error(1)] by (simp add: received_todos_def)
  next
    case (completed warnings prompt_text mentioned s)
    have "todos_consistent s"
      using init[OF completed(1)] completed(2) by (rule todos_consistent_loop)
    then show ?thesis
      using finish_views[OF completed(4)] by (simp add: todos_consistent_def received_todos_def)
  next
    case (stopped warnings prompt_text mentioned s)
    have "todos_consistent s"
      using init[OF stopped(1)] stopped(2) by (rule todos_consistent_loop)
    then show ?thesis
      using stopped(5) by (simp add: todos_consistent_def)
  qed
  with step show ?thesis by simp
qed

theorem todo_redrawn_iff_changed_witness:
  "execute_task (Suc 0)
     (sample_env [todos_update sample_todos, todos_update sample_todos] [] InvokeReturns 0)
     ''plan'' None =
   Some (Completed, None,
     [Print Blank, StatusStart, AgentStream (UserMessages ''plan''),
      Received (Updates (UpdDict None (Some sample_todos))),
      StatusStop, Print Blank, RenderTodoList sample_todos, Print Blank,
      Received (Updates (UpdDict None (Some sample_todos)))])
   \<and> received_todos
     [Print Blank, StatusStart, AgentStream (UserMessages ''plan''),
      Received (Updates (UpdDict None (Some sample_todos))),
      StatusStop, Print Blank, RenderTodoList sample_todos, Print Blank,
      Received (Updates (UpdDict None (Some sample_todos)))] = [sample_todos, sample_todos]
   \<and> rendered_todos
     [Print Blank, StatusStart, AgentStream (UserMessages ''plan''),
      Received (Updates (UpdDict None (Some sample_todos))),
      StatusStop, Print Blank, RenderTodoList sample_todos, Print Blank,
      Received (Updates (UpdDict None (Some sample_todos)))] = [sample_todos]"
  using todo_redrawn_iff_changed [OF sample_turn_todos] sample_turn_todos
  by simp

section \<open>Captured token counts (C9)\<close>

text \<open>
  C9. When a tracker is passed (as \<^verbatim>\<open>simple_cli\<close> always does), the counts
  captured by the end of the loop are the largest input count and the largest output
  count among the usage reports with a nonzero count received during the turn, and 0
  when there is none: a maximum, not a sum, so repeating a report adds nothing.
\<close>

theorem captured_tokens_are_the_maxima:
  assumes "stream_loop fuel e True inp (initial_state es) = Some (out, st')"
    and "received_chunks es = []"
  shows "captured_input_tokens st' = Max (set (0 # map fst (usage_reports (trace st'))))
       \<and> captured_output_tokens st' = Max (set (0 # map snd (usage_reports (trace st'))))"
proof -
  have "usage_captured (initial_state es)"
    using assms(2) by (simp add: usage_captured_def usage_reports_def)
  with usage_captured_chunk usage_captured_interrupt usage_captured_stop usage_captured_notice
  have "usage_captured st'"
    using assms(1) by (rule stream_loop_invariant[where I = usage_captured])
  then show ?thesis by (simp add: usage_captured_def)
qed

theorem captured_tokens_are_the_maxima_witness:
  "\<exists>st'. stream_loop (Suc 0)
       (sample_env [ai_usage 10 200 [TextBlock ''ok''], ai_usage 12 150 [], ai_usage 12 150 []]
          [] InvokeReturns 0)
       True (UserMessages ''hi'') (initial_state []) = Some (Completed, st')
     \<and> received_chunks [] = []
     \<and> usage_reports (trace st') = [(10, 200), (12, 150), (12, 150)]
     \<and> captured_input_tokens st' = 12 \<and> captured_output_tokens st' = 200"
  using captured_tokens_are_the_maxima [OF sample_loop_usage] sample_loop_usage
  by simp

section \<open>The tracker after a turn without text (C10)\<close>

text \<open>
  C10. A turn whose history holds no printed text fragment returns the tracker it was
  given, whatever usage it captured, and so does every turn that does not run to the
  end of its last stream (rejected, interrupted by the user, or left by an exception):
  \<open>add\<close> is applied only after a turn that printed text.
\<close>

theorem tracker_untouched_without_text:
  assumes "execute_task fuel e user_input tracker = Some (out, t', tr)"
  shows "(agent_texts tr = [] \<longrightarrow> t' = tracker) \<and> (out \<noteq> Completed \<longrightarrow> t' = tracker)"
  using assms
proof (cases rule: execute_task_cases)
  case (parse_error warnings err)
  then show ?thesis by simp
next
  case (stopped warnings prompt_text mentioned st)
  then show ?thesis by simp
next
  case (completed warnings prompt_text mentioned st)
  have "text_shown (initial_state (Print Blank # warnings))"
    using parse_file_mentions_views[OF completed(1)] by (simp add: text_shown_def)
  with text_shown_chunk text_shown_interrupt text_shown_stop text_shown_notice
  have "text_shown st"
    using completed(2) by (rule stream_loop_invariant[where I = text_shown])
  then have "agent_texts tr = [] \<Longrightarrow> \<not> has_responded st"
    using finish_views(3)[OF completed(4)] by (simp add: text_shown_def)
  moreover have "\<not> has_responded st \<Longrightarrow> t' = tracker"
    using completed(4) by (auto simp: finish_def Let_def)
  ultimately show ?thesis
    using completed(3) by auto
qed

theorem tracker_untouched_without_text_witness:
  "\<exists>t' tr. execute_task (Suc 0)
       (sample_env [ai_usage 10 2000 [ToolCallChunk (Some ''ls'') None]] [] InvokeReturns 0)
       ''go'' (Some new_tracker) = Some (Completed, t', tr)
     \<and> agent_texts tr = [] \<and> usage_reports tr = [(10, 2000)] \<and> t' = Some new_tracker"
  using tracker_untouched_without_text [OF sample_turn_silent] sample_turn_silent
  by simp

section \<open>The spinner around a todo redraw (C4)\<close>

text \<open>
  C4, as the code has it. A todo snapshot that differs from \<open>current_todos\<close> stops
  a running spinner, then prints a blank line, redraws the list and prints a blank line;
  the spinner is off afterwards. It is not started again: in the history of a turn no
  \<open>StatusStart\<close> follows the first redraw.
\<close>

theorem spinner_stays_stopped_after_todo_redraw:
  assumes "execute_task fuel e user_input tracker = Some (out, t', tr)"
  shows "StatusStart \<notin> set (since_redraw tr)
    \<and> trace (handle_todos ts st) =
        trace st @ (if Some ts \<noteq> current_todos st
                    then (if spinner_active st then [StatusStop] else [])
                         @ [Print Blank, RenderTodoList ts, Print Blank]
                    else [])
    \<and> spinner_active (handle_todos ts st) = (spinner_active st \<and> Some ts = current_todos st)"
proof -
  have init: "spinner_quiet (initial_state (Print Blank # warnings))"
    if "parse_file_mentions (files e) user_input = (warnings, r)" for warnings r
    using parse_file_mentions_views[OF that]
    by (simp add: spinner_quiet_def since_redraw_append since_redraw_empty)
  have loop: "spinner_quiet s'"
    if "spinner_quiet s" and "stream_loop fuel e tracking inp s = Some (res, s')"
    for s s' tracking inp res
    using spinner_quiet_chunk spinner_quiet_interrupt spinner_quiet_stop spinner_quiet_notice that
    by (rule stream_loop_invariant[where I = spinner_quiet])
  from assms have "StatusStart \<notin> set (since_redraw tr)"
  proof (cases rule: execute_task_cases)
    case (parse_error warnings err)
    then show ?thesis
      using parse_file_mentions_views[OF parse_error(1)]
      by (simp add: since_redraw_empty)
  next
    case (completed warnings prompt_text mentioned s)
    have q: "spinner_quiet s"
      using init[OF completed(1)] completed(2) by (rule loop)
    then show ?thesis
      using finish_since_redraw[OF completed(4)] by (simp add: spinner_quiet_def)
  next
    case (stopped warnings prompt_text mentioned s)
    have "spinner_quiet s"
      using init[OF stopped(1)] stopped(2) by (rule loop)
    with stopped(5) show ?thesis by (simp add: spinner_quiet_def)
  qed
  then show ?thesis by (simp add: handle_todos_def)
qed

theorem spinner_stays_stopped_after_todo_redraw_witness:
  "\<exists>tr. execute_task (Suc 0)
       (sample_env [todos_update sample_todos, ai [ToolCallChunk (Some ''ls'') None]]
          [] InvokeReturns 0)
       ''plan'' None = Some (Completed, None, tr)
     \<and> rendered_todos tr = [sample_todos]
     \<and> StatusStart \<notin> set (since_redraw tr)"
  using spinner_stays_stopped_after_todo_redraw [OF sample_turn_redraw] sample_turn_redraw
  by simp

text \<open>
  The claim as written fails: after the redraw the turn goes on (a tool call line is
  printed) and ends, and the spinner, stopped for the redraw, is never started again.
\<close>

theorem spinner_not_resumed_after_redraw_counterexample:
  "execute_task (Suc 0)
     (sample_env [todos_update sample_todos, ai [ToolCallChunk (Some ''ls'') None]]
        [] InvokeReturns 0)
     ''plan'' None =
   Some (Completed, None,
     [Print Blank, StatusStart, AgentStream (UserMessages ''plan''),
      Received (Updates (UpdDict None (Some sample_todos))),
      StatusStop, Print Blank, RenderTodoList sample_todos, Print Blank,
      Received (Messages (MsgPair (AIMessageChunk None [ToolCallChunk (Some ''ls'') None]))),
      Print (ToolCallLine IconLs ''ls'' [])])
   \<and> since_redraw
     [Print Blank, StatusStart, AgentStream (UserMessages ''plan''),
      Received (Updates (UpdDict None (Some sample_todos))),
      StatusStop, Print Blank, RenderTodoList sample_todos, Print Blank,
      Received (Messages (MsgPair (AIMessageChunk None [ToolCallChunk (Some ''ls'') None]))),
      Print (ToolCallLine IconLs ''ls'' [])] =
     [RenderTodoList sample_todos, Print Blank,
      Received (Messages (MsgPair (AIMessageChunk None [ToolCallChunk (Some ''ls'') None]))),
      Print (ToolCallLine IconLs ''ls'' [])]"
  using sample_turn_redraw by simp

section \<open>Rejection (C1)\<close>




section \<open>A tool name followed by its arguments (C3)\<close>

text \<open>
  C3 at its own scenario: a chunk with the name \<^verbatim>\<open>shell\<close> and no arguments, then
  a chunk with the arguments \<^verbatim>\<open>{"command":"ls"}\<close> and no name, where
  \<^verbatim>\<open>json.loads\<close> parses these arguments. One tool call line is printed, when the
  name arrives; it shows \<^verbatim>\<open>shell()\<close> and not the command.
\<close>

theorem shell_name_then_args_shows_no_command:
  "execute_task (Suc 0)
     (sample_env [ai [ToolCallChunk (Some ''shell'') None],
                  ai [ToolCallChunk None (Some (PyStr ls_args))]] [] InvokeReturns 0)
     ''list files'' None =
   Some (Completed, None,
     [Print Blank, StatusStart, AgentStream (UserMessages ''list files''),
      Received (Messages (MsgPair (AIMessageChunk None [ToolCallChunk (Some ''shell'') None]))),
      StatusStop, Print (ToolCallLine IconShell ''shell'' []), StatusStart,
      Received (Messages (MsgPair (AIMessageChunk None [ToolCallChunk None (Some (PyStr ls_args))]))),
      StatusStop])
   \<and> json_loads (sample_env [] [] InvokeReturns 0) ls_args = Some [(''command'', PyStr ''ls'')]"
  by (simp add: turn_defs item_defs capture_usage_def tool_icon_def tool_icons_def
      format_tool_args_def)

section \<open>A mention of an unknown user's home (C6)\<close>

text \<open>
  C6 at a mention \<^verbatim>\<open>@~ghost/notes.txt\<close> where no user \<^verbatim>\<open>ghost\<close> exists,
  followed by a mention of an existing file: \<^verbatim>\<open>expanduser\<close> raises outside the
  \<^verbatim>\<open>try\<close>, no warning is printed, the second mention is never resolved and the
  exception leaves \<^verbatim>\<open>execute_task\<close>.
\<close>

theorem unknown_home_aborts_mention_expansion:
  "find_mentions ''read @~ghost/notes.txt and @a.txt'' = [''~ghost/notes.txt'', ''a.txt'']
   \<and> parse_file_mentions sample_fs ''read @~ghost/notes.txt and @a.txt'' = ([], Inl ''RuntimeError'')
   \<and> execute_task (Suc 0) (sample_env [] [] InvokeReturns 0)
        ''read @~ghost/notes.txt and @a.txt'' None =
      Some (Errored ''RuntimeError'', None, [Print Blank])"
  by (simp add: execute_task_def parse_file_mentions_def find_mentions_def mention_char_def
      is_space_def sample_fs_def sample_env_def Let_def)

end
